theory Spec2Isabelle
  imports Main "HOL-Library.Sublist"
begin

section \<open>String primitives of the host language\<close>

text \<open>
  The source is TypeScript. Its strings are modelled as \<open>string\<close> (lists of \<open>char\<close>),
  a character standing for the code unit of the same number, so the model covers the
  texts whose code units lie in the range 0..255. The library functions the parser and
  the reconciler call are written out below with the behaviour they have on that range.
\<close>

definition isSpace :: "char \<Rightarrow> bool" where
  \<comment> \<open>white space and line terminators removed by \<open>String.prototype.trim\<close>\<close>
  "isSpace c = (c \<in> set [CHR 0x09, CHR 0x0A, CHR 0x0B, CHR 0x0C, CHR 0x0D, CHR 0x20, CHR 0xA0])"

definition isDigit :: "char \<Rightarrow> bool" where
  \<comment> \<open>the class \<open>\d\<close> of a regular expression\<close>
  "isDigit c = (let n = (of_char c :: nat) in 48 \<le> n \<and> n \<le> 57)"

definition trim :: "string \<Rightarrow> string" where
  "trim s = rev (dropWhile isSpace (rev (dropWhile isSpace s)))"

definition lowerChar :: "char \<Rightarrow> char" where
  "lowerChar c =
     (let n = (of_char c :: nat)
      in if (65 \<le> n \<and> n \<le> 90) \<or> (192 \<le> n \<and> n \<le> 222 \<and> n \<noteq> 215)
         then char_of (n + 32) else c)"

definition toLowerCase :: "string \<Rightarrow> string" where
  "toLowerCase s = map lowerChar s"

definition startsWith :: "string \<Rightarrow> string \<Rightarrow> bool" where
  "startsWith s p = (take (length p) s = p)"

fun includesStr :: "string \<Rightarrow> string \<Rightarrow> bool" where
  "includesStr [] p = (p = [])"
| "includesStr (c # cs) p = (startsWith (c # cs) p \<or> includesStr cs p)"

fun split_str :: "string \<Rightarrow> string \<Rightarrow> string list" where
  \<comment> \<open>\<open>s.split(sep)\<close> for a separator that is not empty\<close>
  "split_str sep [] = [[]]"
| "split_str sep (c # cs) =
     (if startsWith (c # cs) sep then [] # split_str sep (drop (length sep - 1) cs)
      else (case split_str sep cs of
              [] \<Rightarrow> [[c]]
            | x # xs \<Rightarrow> (c # x) # xs))"

fun split_lines :: "string \<Rightarrow> string list" where
  \<comment> \<open>\<open>s.split(/\r?\n/)\<close>\<close>
  "split_lines [] = [[]]"
| "split_lines (c # cs) =
     (if c = CHR 0x0D \<and> cs \<noteq> [] \<and> hd cs = CHR 0x0A then [] # split_lines (tl cs)
      else if c = CHR 0x0A then [] # split_lines cs
      else (case split_lines cs of
              [] \<Rightarrow> [[c]]
            | x # xs \<Rightarrow> (c # x) # xs))"

fun join :: "string \<Rightarrow> string list \<Rightarrow> string" where
  "join sep [] = []"
| "join sep [x] = x"
| "join sep (x # y # ys) = x @ sep @ join sep (y # ys)"

fun lastIndexOf :: "string \<Rightarrow> char \<Rightarrow> int" where
  \<comment> \<open>index of the last occurrence, \<open>-1\<close> when there is none\<close>
  "lastIndexOf [] ch = -1"
| "lastIndexOf (c # cs) ch =
     (let r = lastIndexOf cs ch
      in if r \<ge> 0 then r + 1 else if c = ch then 0 else -1)"

definition substring :: "string \<Rightarrow> int \<Rightarrow> int \<Rightarrow> string" where
  \<comment> \<open>both indices are clamped to \<open>0..length\<close> and swapped when the first is the larger\<close>
  "substring s a b =
     (let n = int (length s);
          a' = min (max a 0) n;
          b' = min (max b 0) n;
          lo = min a' b';
          hi = max a' b'
      in take (nat (hi - lo)) (drop (nat lo) s))"

fun pageMatch :: "string \<Rightarrow> string option" where
  \<comment> \<open>\<open>s.match(/page (\d+)/i)\<close>, reduced to its capture group\<close>
  "pageMatch [] = None"
| "pageMatch (c # cs) =
     (let s = c # cs; ds = takeWhile isDigit (drop 5 s)
      in if toLowerCase (take 5 s) = ''page '' \<and> ds \<noteq> [] then Some ds else pageMatch cs)"

definition digitVal :: "char \<Rightarrow> int" where
  "digitVal c = int (of_char c) - 48"

definition decimalValue :: "string \<Rightarrow> int" where
  "decimalValue ds = foldl (\<lambda>acc c. 10 * acc + digitVal c) 0 ds"

definition isHexDigit :: "char \<Rightarrow> bool" where
  "isHexDigit c =
     (let n = (of_char c :: nat)
      in (48 \<le> n \<and> n \<le> 57) \<or> (65 \<le> n \<and> n \<le> 70) \<or> (97 \<le> n \<and> n \<le> 102))"

definition hexVal :: "char \<Rightarrow> int" where
  "hexVal c =
     (let n = int (of_char c)
      in if n \<le> 57 then n - 48 else if n \<le> 70 then n - 55 else n - 87)"

definition hexValue :: "string \<Rightarrow> int" where
  "hexValue ds = foldl (\<lambda>acc c. 16 * acc + hexVal c) 0 ds"

definition parseInt :: "string \<Rightarrow> int option" where
  \<comment> \<open>\<open>parseInt(s)\<close> with no radix; \<open>None\<close> stands for \<open>NaN\<close>. The result is the exact
      integer: the rounding of a number beyond $2^{53}$ is not modelled.\<close>
  "parseInt s =
     (let s1 = dropWhile isSpace s;
          neg = (s1 \<noteq> [] \<and> hd s1 = CHR ''-'');
          s2 = (if s1 \<noteq> [] \<and> (hd s1 = CHR ''-'' \<or> hd s1 = CHR ''+'') then tl s1 else s1);
          hex = (toLowerCase (take 2 s2) = ''0x'');
          ds = (if hex then takeWhile isHexDigit (drop 2 s2) else takeWhile isDigit s2);
          v = (if hex then hexValue ds else decimalValue ds)
      in if ds = [] then None else Some (if neg then - v else v))"

definition hexDigit :: "nat \<Rightarrow> char" where
  "hexDigit n = (if n < 10 then char_of (48 + n) else char_of (55 + n))"

definition percent :: "nat \<Rightarrow> string" where
  "percent n = [CHR ''%'', hexDigit (n div 16), hexDigit (n mod 16)]"

definition isUnreserved :: "char \<Rightarrow> bool" where
  "isUnreserved c =
     (let n = (of_char c :: nat)
      in (48 \<le> n \<and> n \<le> 57) \<or> (65 \<le> n \<and> n \<le> 90) \<or> (97 \<le> n \<and> n \<le> 122)
         \<or> c \<in> set ''-_.!~*'()'')"

definition encodeChar :: "char \<Rightarrow> string" where
  "encodeChar c =
     (let n = (of_char c :: nat)
      in if isUnreserved c then [c]
         else if n < 128 then percent n
         else percent (192 + n div 64) @ percent (128 + n mod 64))"

definition encodeURIComponent :: "string \<Rightarrow> string" where
  "encodeURIComponent s = concat (map encodeChar s)"

section \<open>The format parser (services/ebookImportService.ts)\<close>

record parsedHighlight =
  p_text :: string
  page :: "string option"
  location :: "string option"
  p_createdAt :: "string option"

record importedBookData =
  i_title :: string
  i_author :: string
  i_highlights :: "parsedHighlight list"

text \<open>
  One entry of a clippings file after the title, the author, the page and the body have
  been read, before it is filed under its book.
\<close>

record entry =
  e_title :: string
  e_author :: string
  e_page :: "string option"
  e_content :: string

definition normalizeAuthor :: "string \<Rightarrow> string" where
  \<comment> \<open>lines 32 to 37 of the parser\<close>
  "normalizeAuthor rawAuthor =
     (if CHR '','' \<in> set rawAuthor then
        (let parts = map trim (split_str '','' rawAuthor)
         in if length parts = 2 then (parts ! 1) @ '' '' @ (parts ! 0) else rawAuthor)
      else rawAuthor)"

definition rawAuthorOf :: "string \<Rightarrow> string" where
  "rawAuthorOf titleLine =
     trim (substring titleLine (lastIndexOf titleLine CHR ''('' + 1) (int (length titleLine) - 1))"

definition parseTitleLine :: "string \<Rightarrow> string \<times> string" where
  "parseTitleLine titleLine =
     (let lastParenIndex = lastIndexOf titleLine CHR ''(''
      in if lastParenIndex > 0
         then (trim (substring titleLine 0 lastParenIndex), normalizeAuthor (rawAuthorOf titleLine))
         else (titleLine, ''Unknown Author''))"

definition bodyOf :: "string list \<Rightarrow> string" where
  \<comment> \<open>the lines from the first non-blank one at index 2 or later, joined and trimmed\<close>
  "bodyOf lines = trim (join [CHR 0x0A] (dropWhile (\<lambda>l. trim l = []) (drop 2 lines)))"

definition parseSection :: "string \<Rightarrow> entry option" where
  "parseSection section =
     (let lines = split_lines (trim section)
      in if length lines < 2 then None
         else
           (let (title, author) = parseTitleLine (trim (lines ! 0));
                pg = pageMatch (trim (lines ! 1));
                content = bodyOf lines
            in if content = [] \<or> startsWith (toLowerCase content) ''bookmark'' then None
               else Some \<lparr>e_title = title, e_author = author, e_page = pg, e_content = content\<rparr>))"

definition keyOf :: "string \<Rightarrow> string \<Rightarrow> string" where
  "keyOf title author = toLowerCase (title @ ''-'' @ author)"

text \<open>
  The book map is a JavaScript \<open>Map\<close>: it keeps its keys in insertion order, so it is an
  association list to which a new key is appended.
\<close>

type_synonym bookMap = "(string \<times> importedBookData) list"

definition pushHighlight :: "string \<Rightarrow> parsedHighlight \<Rightarrow> bookMap \<Rightarrow> bookMap" where
  "pushHighlight key h bm =
     map (\<lambda>(k, b). if k = key then (k, b\<lparr>i_highlights := i_highlights b @ [h]\<rparr>) else (k, b)) bm"

definition addEntry :: "(nat \<Rightarrow> string) \<Rightarrow> bookMap \<times> nat \<Rightarrow> entry \<Rightarrow> bookMap \<times> nat" where
  \<comment> \<open>lines 53 to 62; the second component counts the readings of the clock\<close>
  "addEntry clock st e =
     (let bm = fst st; t = snd st;
          key = keyOf (e_title e) (e_author e);
          bm1 = (if key \<in> set (map fst bm) then bm
                 else bm @ [(key, \<lparr>i_title = e_title e, i_author = e_author e, i_highlights = []\<rparr>)])
      in (pushHighlight key
            \<lparr>p_text = e_content e, page = e_page e, location = None,
             p_createdAt = Some (clock t)\<rparr> bm1,
          Suc t))"

definition processSection :: "(nat \<Rightarrow> string) \<Rightarrow> bookMap \<times> nat \<Rightarrow> string \<Rightarrow> bookMap \<times> nat" where
  "processSection clock st section =
     (case parseSection section of None \<Rightarrow> st | Some e \<Rightarrow> addEntry clock st e)"

definition sectionsOf :: "string \<Rightarrow> string list" where
  "sectionsOf text = filter (\<lambda>s. length (trim s) > 0) (split_str ''=========='' text)"

definition parseKindleClippings :: "(nat \<Rightarrow> string) \<Rightarrow> string \<Rightarrow> importedBookData list" where
  "parseKindleClippings clock text =
     map snd (fst (foldl (processSection clock) ([], 0) (sectionsOf text)))"

definition parseImportText ::
  "(string \<Rightarrow> importedBookData list) \<Rightarrow> (nat \<Rightarrow> string) \<Rightarrow> string \<Rightarrow> importedBookData list" where
  \<comment> \<open>\<open>parseHtmlHighlights\<close> walks a browser's DOM and is taken as a parameter\<close>
  "parseImportText parseHtmlHighlights clock text =
     (let trimmed = trim text
      in if includesStr trimmed ''=========='' then parseKindleClippings clock trimmed
         else if startsWith trimmed ''<'' \<or> includesStr trimmed ''<!DOCTYPE html>''
                 \<or> includesStr trimmed ''<html>''
         then parseHtmlHighlights trimmed
         else [])"

subsection \<open>Grouping, as the specification words it\<close>

text \<open>
  The retained entries of a clippings text are the sections that the parser does not
  skip, in the order of the text. The specification groups them by key: one book for each
  key, the keys in the order of their first entry, and under each key the highlights of
  its entries in the order of the entries, the $i$-th retained entry stamped with the
  $i$-th reading of the clock. \<open>groupEntries\<close> is that description;
  \<open>parseKindleClippings\<close> above is the code.
\<close>

definition entryKey :: "entry \<Rightarrow> string" where
  "entryKey e = keyOf (e_title e) (e_author e)"

definition highlightOf :: "(nat \<Rightarrow> string) \<Rightarrow> nat \<Rightarrow> entry \<Rightarrow> parsedHighlight" where
  "highlightOf clock i e =
     \<lparr>p_text = e_content e, page = e_page e, location = None, p_createdAt = Some (clock i)\<rparr>"

definition retainedEntries :: "string \<Rightarrow> entry list" where
  "retainedEntries text = List.map_filter parseSection (sectionsOf text)"

text \<open>
  \<open>remdups\<close> keeps the last occurrence of each element; between two reversals it keeps
  the first.
\<close>

definition firstKeys :: "string list \<Rightarrow> string list" where
  "firstKeys ks = rev (remdups (rev ks))"

definition membersOf :: "string \<Rightarrow> entry list \<Rightarrow> (nat \<times> entry) list" where
  "membersOf k es = filter (\<lambda>ie. entryKey (snd ie) = k) (enumerate 0 es)"

definition groupedBook :: "(nat \<Rightarrow> string) \<Rightarrow> entry list \<Rightarrow> string \<Rightarrow> importedBookData" where
  "groupedBook clock es k =
     (let ms = membersOf k es
      in \<lparr>i_title = e_title (snd (hd ms)), i_author = e_author (snd (hd ms)),
          i_highlights = map (\<lambda>ie. highlightOf clock (fst ie) (snd ie)) ms\<rparr>)"

definition groupEntries :: "(nat \<Rightarrow> string) \<Rightarrow> entry list \<Rightarrow> importedBookData list" where
  "groupEntries clock es = map (groupedBook clock es) (firstKeys (map entryKey es))"

text \<open>The test of line 51 on the body of a section.\<close>

definition discarded :: "string \<Rightarrow> bool" where
  "discarded section =
     (let body = bodyOf (split_lines (trim section))
      in body = [] \<or> startsWith (toLowerCase body) ''bookmark'')"

text \<open>The book map the loop has built after a list of retained entries.\<close>

definition groupMap :: "(nat \<Rightarrow> string) \<Rightarrow> entry list \<Rightarrow> bookMap" where
  "groupMap clock es = map (\<lambda>k. (k, groupedBook clock es k)) (firstKeys (map entryKey es))"

section \<open>The library and its operations (App.tsx)\<close>

datatype source = Scanned | Digital

record thought =
  t_id :: string
  t_text :: string
  t_createdAt :: string

record book =
  b_id :: string
  b_title :: string
  b_author :: string
  coverUrl :: string
  totalHighlights :: nat
  lastRead :: "string option"

record highlight =
  h_id :: string
  bookId :: string
  h_text :: string
  pageNumber :: "int option"
  thoughts :: "thought list"
  h_createdAt :: string
  imageUrl :: "string option"
  source :: source

text \<open>The two arrays kept in local storage.\<close>

record library =
  l_books :: "book list"
  l_highlights :: "highlight list"

record bookMetadata =
  m_title :: string
  m_author :: string
  m_coverUrl :: string

text \<open>
  What the code takes from outside: the answer of the book search service to a query
  (\<open>None\<close> when the request fails or finds nothing), the identifiers drawn from
  \<open>crypto.randomUUID\<close> and the readings of the clock. The last two are indexed by a
  counter of the draws made so far, which the operations pass along.
\<close>

record env =
  lookup :: "string \<Rightarrow> bookMetadata option"
  randomUUID :: "nat \<Rightarrow> string"
  nowISO :: "nat \<Rightarrow> string"

definition searchForBook :: "env \<Rightarrow> string \<Rightarrow> nat \<Rightarrow> book option" where
  \<comment> \<open>services/geminiService.ts: a found volume becomes a book with a fresh identifier
      and no highlights; every failure is \<open>null\<close>\<close>
  "searchForBook ev query t =
     (case lookup ev query of
        None \<Rightarrow> None
      | Some m \<Rightarrow> Some \<lparr>b_id = randomUUID ev t, b_title = m_title m, b_author = m_author m,
                        coverUrl = m_coverUrl m, totalHighlights = 0, lastRead = None\<rparr>)"

fun findIndex :: "('a \<Rightarrow> bool) \<Rightarrow> 'a list \<Rightarrow> nat option" where
  "findIndex P [] = None"
| "findIndex P (x # xs) = (if P x then Some 0 else map_option Suc (findIndex P xs))"

record importState =
  currentBooks :: "book list"
  allHighlights :: "highlight list"
  tick :: nat
  addedCount :: nat
  updates :: "(string \<times> nat) list"

definition titleMatches :: "importedBookData \<Rightarrow> book \<Rightarrow> bool" where
  "titleMatches iBook b = (toLowerCase (b_title b) = toLowerCase (i_title iBook))"

definition placeholderBook :: "env \<Rightarrow> nat \<Rightarrow> importedBookData \<Rightarrow> book" where
  "placeholderBook ev t iBook =
     \<lparr>b_id = randomUUID ev t, b_title = i_title iBook, b_author = i_author iBook,
      coverUrl = ''https://placehold.co/400x600?text='' @ encodeURIComponent (i_title iBook),
      totalHighlights = 0, lastRead = None\<rparr>"

definition newBookFor :: "env \<Rightarrow> nat \<Rightarrow> importedBookData \<Rightarrow> book" where
  \<comment> \<open>\<open>meta || { ... }\<close> of line 645\<close>
  "newBookFor ev t iBook =
     (case searchForBook ev (i_title iBook @ '' '' @ i_author iBook) t of
        Some meta \<Rightarrow> meta
      | None \<Rightarrow> placeholderBook ev t iBook)"

definition pageNumberOf :: "parsedHighlight \<Rightarrow> int option" where
  \<comment> \<open>\<open>h.page ? parseInt(h.page) : undefined\<close>\<close>
  "pageNumberOf h = (case page h of None \<Rightarrow> None | Some p \<Rightarrow> if p = [] then None else parseInt p)"

definition bumpTotal :: "nat \<Rightarrow> book list \<Rightarrow> book list" where
  \<comment> \<open>\<open>bookObj.totalHighlights++\<close> on the book object at the given position\<close>
  "bumpTotal i bs =
     (if i < length bs then bs[i := (bs ! i)\<lparr>totalHighlights := Suc (totalHighlights (bs ! i))\<rparr>]
      else bs)"

definition importHighlight ::
  "env \<Rightarrow> nat \<Rightarrow> string \<Rightarrow> importState \<times> nat \<Rightarrow> parsedHighlight \<Rightarrow> importState \<times> nat" where
  \<comment> \<open>the body of the inner loop, lines 650 to 664; the second component is
      \<open>newHighlightsInBook\<close>\<close>
  "importHighlight ev idx bid sn h =
     (let st = fst sn; n = snd sn
      in if list_ex (\<lambda>eh. bookId eh = bid \<and> h_text eh = p_text h) (allHighlights st) then (st, n)
         else
           (st\<lparr>allHighlights := allHighlights st @
                  [\<lparr>h_id = randomUUID ev (tick st), bookId = bid, h_text = p_text h,
                    pageNumber = pageNumberOf h, thoughts = [],
                    h_createdAt = nowISO ev (tick st), imageUrl = None, source = Digital\<rparr>],
               addedCount := Suc (addedCount st),
               currentBooks := bumpTotal idx (currentBooks st),
               tick := Suc (tick st)\<rparr>,
            Suc n))"

definition importBook :: "env \<Rightarrow> importState \<Rightarrow> importedBookData \<Rightarrow> importState" where
  \<comment> \<open>the body of the outer loop, lines 640 to 669\<close>
  "importBook ev st iBook =
     (let (idx, st1) =
            (case findIndex (titleMatches iBook) (currentBooks st) of
               Some i \<Rightarrow> (i, st)
             | None \<Rightarrow> (0, st\<lparr>currentBooks := newBookFor ev (tick st) iBook # currentBooks st,
                               tick := Suc (tick st)\<rparr>));
          bid = b_id (currentBooks st1 ! idx);
          (st2, n) = foldl (importHighlight ev idx bid) (st1, 0) (i_highlights iBook)
      in if n > 0 then st2\<lparr>updates := updates st2 @ [(i_title iBook, n)]\<rparr> else st2)"

record importSummary =
  totalBooksProcessed :: nat
  totalHighlightsAdded :: nat
  s_updates :: "(string \<times> nat) list"

datatype error = NoHighlightsDetected

definition reconcile :: "env \<Rightarrow> library \<Rightarrow> importedBookData list \<Rightarrow> importState" where
  "reconcile ev lib imported =
     foldl (importBook ev)
       \<lparr>currentBooks = l_books lib, allHighlights = l_highlights lib, tick = 0,
        addedCount = 0, updates = []\<rparr> imported"

definition handleBulkImport ::
  "env \<Rightarrow> (string \<Rightarrow> importedBookData list) \<Rightarrow> (nat \<Rightarrow> string) \<Rightarrow> library \<Rightarrow> string
     \<Rightarrow> error + library \<times> importSummary" where
  "handleBulkImport ev parseHtmlHighlights clock lib importText =
     (let importedBooksData = parseImportText parseHtmlHighlights clock importText
      in if importedBooksData = [] then Inl NoHighlightsDetected
         else
           (let st = reconcile ev lib importedBooksData
            in Inr (\<lparr>l_books = currentBooks st, l_highlights = allHighlights st\<rparr>,
                    \<lparr>totalBooksProcessed = length importedBooksData,
                     totalHighlightsAdded = addedCount st,
                     s_updates = updates st\<rparr>)))"

definition deleteStoredHighlight :: "library \<Rightarrow> string \<Rightarrow> library" where
  "deleteStoredHighlight lib highlightId =
     lib\<lparr>l_highlights := filter (\<lambda>h. h_id h \<noteq> highlightId) (l_highlights lib)\<rparr>"

definition draftPageNumber :: "string \<Rightarrow> int option" where
  \<comment> \<open>\<open>parseInt(String(draftPage)) || undefined\<close>\<close>
  "draftPageNumber draftPage =
     (case parseInt draftPage of None \<Rightarrow> None | Some n \<Rightarrow> if n = 0 then None else Some n)"

definition saveNewHighlight ::
  "env \<Rightarrow> nat \<Rightarrow> library \<Rightarrow> book option \<Rightarrow> string \<Rightarrow> string \<Rightarrow> string \<Rightarrow> library" where
  \<comment> \<open>the book is the one shown by the page, the three strings are the draft\<close>
  "saveNewHighlight ev t lib bookOpt draftText draftPage draftNote =
     (case bookOpt of
        None \<Rightarrow> lib
      | Some bk \<Rightarrow>
          if trim draftText = [] then lib
          else
            (let newH = \<lparr>h_id = randomUUID ev t, bookId = b_id bk, h_text = draftText,
                         pageNumber = draftPageNumber draftPage,
                         thoughts = (if draftNote \<noteq> []
                                     then [\<lparr>t_id = randomUUID ev (Suc t), t_text = draftNote,
                                            t_createdAt = nowISO ev t\<rparr>]
                                     else []),
                         h_createdAt = nowISO ev (Suc t), imageUrl = None, source = Scanned\<rparr>;
                 allB = l_books lib
             in \<lparr>l_books = (case findIndex (\<lambda>b. b_id b = b_id bk) allB of
                               Some bIndex \<Rightarrow> bumpTotal bIndex allB
                             | None \<Rightarrow> allB),
                 l_highlights = l_highlights lib @ [newH]\<rparr>))"

definition deleteBook :: "library \<Rightarrow> book \<Rightarrow> library" where
  "deleteBook lib bk =
     \<lparr>l_books = filter (\<lambda>b. b_id b \<noteq> b_id bk) (l_books lib),
      l_highlights = filter (\<lambda>h. bookId h \<noteq> b_id bk) (l_highlights lib)\<rparr>"

definition countFor :: "library \<Rightarrow> string \<Rightarrow> nat" where
  "countFor lib bid = length (filter (\<lambda>h. bookId h = bid) (l_highlights lib))"

definition totalsAgree :: "library \<Rightarrow> bool" where
  "totalsAgree lib = list_all (\<lambda>b. totalHighlights b = countFor lib (b_id b)) (l_books lib)"

section \<open>Notions used to state the properties of the reconciler\<close>

text \<open>The book list after \<open>k\<close> increments of the counter of the book at one position.\<close>

definition addTotal :: "nat \<Rightarrow> nat \<Rightarrow> book list \<Rightarrow> book list" where
  "addTotal k i bs =
     (if i < length bs then bs[i := (bs ! i)\<lparr>totalHighlights := totalHighlights (bs ! i) + k\<rparr>]
      else bs)"

text \<open>
  The book a parsed book is merged into: the first book of the list whose title matches,
  or else a new book put in front of the list.
\<close>

definition targetIndex :: "importState \<Rightarrow> importedBookData \<Rightarrow> nat" where
  "targetIndex st P = (case findIndex (titleMatches P) (currentBooks st) of Some i \<Rightarrow> i | None \<Rightarrow> 0)"

definition booksWithTarget :: "env \<Rightarrow> importState \<Rightarrow> importedBookData \<Rightarrow> book list" where
  "booksWithTarget ev st P =
     (case findIndex (titleMatches P) (currentBooks st) of
        Some i \<Rightarrow> currentBooks st
      | None \<Rightarrow> newBookFor ev (tick st) P # currentBooks st)"

definition targetId :: "env \<Rightarrow> importState \<Rightarrow> importedBookData \<Rightarrow> string" where
  "targetId ev st P = b_id (booksWithTarget ev st P ! targetIndex st P)"

text \<open>
  A parsed book is covered by a state when a book of the list matches its title and every
  one of its highlight texts is already stored under the first such book.
\<close>

definition covered :: "importState \<Rightarrow> importedBookData \<Rightarrow> bool" where
  "covered st P =
     (case findIndex (titleMatches P) (currentBooks st) of
        None \<Rightarrow> False
      | Some i \<Rightarrow>
          list_all (\<lambda>h. list_ex (\<lambda>eh. bookId eh = b_id (currentBooks st ! i) \<and> h_text eh = p_text h)
                           (allHighlights st))
            (i_highlights P))"

text \<open>
  The book search either fails for a parsed book or answers with a title equal to the
  parsed one up to letter case.
\<close>

definition lookupKeepsTitle :: "env \<Rightarrow> importedBookData \<Rightarrow> bool" where
  "lookupKeepsTitle ev P =
     (case lookup ev (i_title P @ '' '' @ i_author P) of
        None \<Rightarrow> True
      | Some m \<Rightarrow> toLowerCase (m_title m) = toLowerCase (i_title P))"

text \<open>Two parsed books that differ at most in the time stamps of their highlights.\<close>

definition sameContent :: "importedBookData \<Rightarrow> importedBookData \<Rightarrow> bool" where
  "sameContent P P' =
     (i_title P = i_title P' \<and> i_author P = i_author P'
      \<and> map (\<lambda>h. (p_text h, page h, location h)) (i_highlights P)
          = map (\<lambda>h. (p_text h, page h, location h)) (i_highlights P'))"

text \<open>
  A stored book before and after the import of a list of parsed books: everything but the
  counter is the same, the counter has not gone down, and the book is unchanged when no
  parsed book matches its title.
\<close>

definition keptAs :: "importedBookData list \<Rightarrow> book \<Rightarrow> book \<Rightarrow> bool" where
  "keptAs Ps b b' =
     (b' = b\<lparr>totalHighlights := totalHighlights b'\<rparr> \<and> totalHighlights b \<le> totalHighlights b'
      \<and> (list_all (\<lambda>P. \<not> titleMatches P b) Ps \<longrightarrow> b' = b))"

text \<open>
  The state of an import in which the identifiers of the books are distinct, every counter
  is the number of the stored highlights of its book, and no identifier still to be drawn
  is in use.
\<close>

definition wellCounted :: "env \<Rightarrow> importState \<Rightarrow> bool" where
  "wellCounted ev st =
     (distinct (map b_id (currentBooks st))
      \<and> list_all (\<lambda>b. totalHighlights b
                        = length (filter (\<lambda>h. bookId h = b_id b) (allHighlights st)))
           (currentBooks st)
      \<and> (\<forall>n \<ge> tick st. randomUUID ev n \<notin> set (map b_id (currentBooks st))
                        \<and> randomUUID ev n \<notin> set (map bookId (allHighlights st))))"

text \<open>
  A parsed book is filed in a state when each of its highlight texts is stored under the
  identifier of a book of the list.
\<close>

definition filed :: "importState \<Rightarrow> importedBookData \<Rightarrow> bool" where
  "filed st R =
     list_all (\<lambda>h. list_ex (\<lambda>eh. h_text eh = p_text h
                                 \<and> bookId eh \<in> set (map b_id (currentBooks st)))
                      (allHighlights st))
       (i_highlights R)"

section \<open>Sample inputs\<close>

definition emptyLibrary :: library where
  "emptyLibrary = \<lparr>l_books = [], l_highlights = []\<rparr>"

definition mobyText :: string where
  "mobyText = ''Moby Dick (Melville, Herman)\<newline>- Your Highlight on page 10\<newline>\<newline>Call me Ishmael.\<newline>==========\<newline>Moby Dick (Melville, Herman)\<newline>- Your Highlight on page 20\<newline>\<newline>It is a way I have.\<newline>==========''"

definition duneText :: string where
  "duneText = ''Dune (Herbert, Frank)\<newline>- Your Highlight on page 5\<newline>\<newline>Fear is the mind-killer.\<newline>==========''"

text \<open>
  An environment whose book search answers every query with the given title and author, and whose
  identifiers start with the given character.
\<close>

definition sampleEnv :: "string \<Rightarrow> string \<Rightarrow> char \<Rightarrow> env" where
  "sampleEnv title author c =
     \<lparr>lookup = (\<lambda>_. Some \<lparr>m_title = title, m_author = author, m_coverUrl = ''cover''\<rparr>),
      randomUUID = (\<lambda>n. c # replicate n CHR ''x''),
      nowISO = (\<lambda>_. ''now'')\<rparr>"

text \<open>An environment whose book search fails for every query.\<close>

definition offlineEnv :: "char \<Rightarrow> env" where
  "offlineEnv c =
     \<lparr>lookup = (\<lambda>_. None), randomUUID = (\<lambda>n. c # replicate n CHR ''x''), nowISO = (\<lambda>_. ''now'')\<rparr>"

text \<open>
  A state of the import with two stored books, the second titled \<open>DUNE\<close>, and two
  parsed books titled \<open>Dune\<close> and \<open>dune\<close> by different authors.
\<close>

definition twoBooks :: importState where
  "twoBooks =
     \<lparr>currentBooks =
        [\<lparr>b_id = ''o1'', b_title = ''Other'', b_author = ''A. Nother'', coverUrl = ''c1'',
          totalHighlights = 0, lastRead = None\<rparr>,
         \<lparr>b_id = ''d1'', b_title = ''DUNE'', b_author = ''F. Herbert'', coverUrl = ''c2'',
          totalHighlights = 0, lastRead = Some ''yesterday''\<rparr>],
      allHighlights = [], tick = 0, addedCount = 0, updates = []\<rparr>"

definition duneParsed :: importedBookData where
  "duneParsed =
     \<lparr>i_title = ''Dune'', i_author = ''Frank Herbert'',
      i_highlights = [\<lparr>p_text = ''Fear is the mind-killer.'', page = Some ''5'',
                        location = None, p_createdAt = None\<rparr>]\<rparr>"

definition duneOther :: importedBookData where
  "duneOther =
     \<lparr>i_title = ''dune'', i_author = ''Somebody Else'',
      i_highlights = [\<lparr>p_text = ''The spice must flow.'', page = None,
                        location = None, p_createdAt = None\<rparr>]\<rparr>"

definition duneMessiah :: importedBookData where
  "duneMessiah =
     \<lparr>i_title = ''Dune Messiah'', i_author = ''Frank Herbert'',
      i_highlights = [\<lparr>p_text = ''Here lies a toppled god.'', page = Some ''1'',
                        location = None, p_createdAt = None\<rparr>]\<rparr>"

definition emmaDuneText :: string where
  "emmaDuneText = ''Emma (Austen, Jane)\<newline>- Your Highlight on page 3\<newline>\<newline>Seldom, very seldom.\<newline>==========\<newline>Dune (Herbert, Frank)\<newline>- Your Highlight on page 5\<newline>\<newline>Fear is the mind-killer.\<newline>==========''"

text \<open>A library with two books and one highlight, whose counters are right.\<close>

definition sampleLibrary :: library where
  "sampleLibrary =
     \<lparr>l_books =
        [\<lparr>b_id = ''o1'', b_title = ''Other'', b_author = ''A. Nother'', coverUrl = ''c1'',
          totalHighlights = 1, lastRead = None\<rparr>,
         \<lparr>b_id = ''d1'', b_title = ''DUNE'', b_author = ''F. Herbert'', coverUrl = ''c2'',
          totalHighlights = 0, lastRead = Some ''yesterday''\<rparr>],
      l_highlights =
        [\<lparr>h_id = ''h0'', bookId = ''o1'', h_text = ''An old note.'', pageNumber = None,
          thoughts = [], h_createdAt = ''then'', imageUrl = None, source = Scanned\<rparr>]\<rparr>"

section \<open>Facts about the string primitives\<close>

lemma startsWith_iff: "startsWith s p \<longleftrightarrow> (\<exists>b. s = p @ b)"
  unfolding startsWith_def
  by (metis append_eq_conv_conj append_take_drop_id)

lemma includesStr_iff: "includesStr s p \<longleftrightarrow> (\<exists>a b. s = a @ p @ b)"
proof (induction s)
  case Nil
  then show ?case by auto
next
  case (Cons c cs)
  show ?case
  proof
    assume "includesStr (c # cs) p"
    then consider "startsWith (c # cs) p" | "includesStr cs p" by auto
    then show "\<exists>a b. c # cs = a @ p @ b"
    proof cases
      case 1
      then obtain b where "c # cs = p @ b" by (auto simp: startsWith_iff)
      then have "c # cs = [] @ p @ b" by simp
      then show ?thesis by blast
    next
      case 2
      then obtain a b where "cs = a @ p @ b" using Cons.IH by auto
      then have "c # cs = (c # a) @ p @ b" by simp
      then show ?thesis by blast
    qed
  next
    assume "\<exists>a b. c # cs = a @ p @ b"
    then obtain a b where ab: "c # cs = a @ p @ b" by blast
    show "includesStr (c # cs) p"
    proof (cases a)
      case Nil
      then have "startsWith (c # cs) p" using ab unfolding startsWith_iff by auto
      then show ?thesis by simp
    next
      case (Cons x a')
      then have "cs = a' @ p @ b" using ab by simp
      then show ?thesis using Cons.IH by auto
    qed
  qed
qed

section \<open>The format parser: dispatch and author normalization\<close>

text \<open>
  Claim C6. A trimmed input with no separator of ten equals signs, no leading \<open><\<close> and
  neither HTML document marker is parsed to the empty list; the model is a total
  function, so nothing is thrown. A trimmed input that contains the separator goes to the
  clippings parser whatever else it contains, HTML markers included.
\<close>

theorem parseImportText_dispatch:
  "(\<not> includesStr (trim text) ''=========='' \<and> \<not> startsWith (trim text) ''<''
      \<and> \<not> includesStr (trim text) ''<!DOCTYPE html>'' \<and> \<not> includesStr (trim text) ''<html>''
      \<longrightarrow> parseImportText parseHtmlHighlights clock text = [])
   \<and> (includesStr (trim text) ''==========''
      \<longrightarrow> parseImportText parseHtmlHighlights clock text = parseKindleClippings clock (trim text))"
  by (simp add: parseImportText_def)

theorem parseImportText_dispatch_witness:
  "parseImportText (\<lambda>_. []) (\<lambda>_. ''t'') ''  just some notes '' = []
   \<and> parseImportText (\<lambda>_. []) (\<lambda>_. ''t'') ''<html>==========''
       = parseKindleClippings (\<lambda>_. ''t'') ''<html>==========''"
proof -
  have a: "trim ''  just some notes '' = ''just some notes''" by code_simp
  have b: "trim ''<html>=========='' = ''<html>==========''" by code_simp
  have c: "\<not> includesStr ''just some notes'' ''==========''" by code_simp
  have d: "\<not> startsWith ''just some notes'' ''<''" by code_simp
  have e: "\<not> includesStr ''just some notes'' ''<!DOCTYPE html>''" by code_simp
  have f: "\<not> includesStr ''just some notes'' ''<html>''" by code_simp
  have g: "includesStr ''<html>=========='' ''==========''" by code_simp
  show ?thesis
    using parseImportText_dispatch [of "''  just some notes ''" "\<lambda>_. []" "\<lambda>_. ''t''"]
      parseImportText_dispatch [of "''<html>==========''" "\<lambda>_. []" "\<lambda>_. ''t''"]
    unfolding a b using c d e f g by blast
qed

lemma split_str_nonempty: "split_str sep s \<noteq> []"
  by (induction s) (auto split: list.splits)

lemma split_str_char:
  "split_str [ch] s =
     (if ch \<in> set s
      then takeWhile (\<lambda>c. c \<noteq> ch) s # split_str [ch] (tl (dropWhile (\<lambda>c. c \<noteq> ch) s))
      else [s])"
proof (induction s)
  case Nil
  then show ?case by simp
next
  case (Cons c cs)
  show ?case
  proof (cases "c = ch")
    case True
    then show ?thesis by (simp add: startsWith_def)
  next
    case False
    then show ?thesis using Cons.IH by (simp add: startsWith_def)
  qed
qed

lemma length_split_str_char: "length (split_str [ch] s) = Suc (count_list s ch)"
proof (induction s)
  case Nil
  then show ?case by simp
next
  case (Cons c cs)
  then show ?case
    using split_str_nonempty [of "[ch]" cs]
    by (cases "split_str [ch] cs") (auto simp: startsWith_def)
qed

lemma count_list_0_iff: "count_list s ch = 0 \<longleftrightarrow> ch \<notin> set s"
  by (induction s) auto

lemma count_list_tl_dropWhile:
  "ch \<in> set s \<Longrightarrow> count_list (tl (dropWhile (\<lambda>c. c \<noteq> ch) s)) ch = count_list s ch - 1"
  by (induction s) auto

lemma normalizeAuthor_cases:
  "normalizeAuthor raw =
     (if count_list raw CHR '','' = 1
      then trim (tl (dropWhile (\<lambda>c. c \<noteq> CHR '','') raw)) @ '' ''
           @ trim (takeWhile (\<lambda>c. c \<noteq> CHR '','') raw)
      else raw)"
proof (cases "count_list raw CHR '','' = 1")
  case True
  then have mem: "CHR '','' \<in> set raw" using count_list_0_iff [of raw "CHR '',''"] by auto
  let ?rest = "tl (dropWhile (\<lambda>c. c \<noteq> CHR '','') raw)"
  have "count_list ?rest CHR '','' = 0" using count_list_tl_dropWhile [OF mem] True by simp
  then have "CHR '','' \<notin> set ?rest" by (simp add: count_list_0_iff)
  then have r: "split_str '','' ?rest = [?rest]" using split_str_char [of "CHR '',''" ?rest] by simp
  have "split_str '','' raw = [takeWhile (\<lambda>c. c \<noteq> CHR '','') raw, ?rest]"
    using split_str_char [of "CHR '',''" raw] mem r by simp
  then show ?thesis using True mem by (simp add: normalizeAuthor_def)
next
  case False
  then show ?thesis
    using length_split_str_char [of "CHR '',''" raw] count_list_0_iff [of raw "CHR '',''"]
    by (auto simp: normalizeAuthor_def Let_def)
qed

text \<open>
  Claim C4. For a title line with a parenthesis after position 0, the author is read off
  the trimmed raw author field: with exactly one comma (the split at the commas has two
  parts) it is the trimmed part after the comma, a space, and the trimmed part before
  it; with no comma, or with more than one, it is the raw field unmodified.
\<close>

theorem author_normalization:
  "0 < lastIndexOf titleLine CHR ''('' \<Longrightarrow>
   snd (parseTitleLine titleLine) =
     (let rawAuthor = rawAuthorOf titleLine
      in if count_list rawAuthor CHR '','' = 1
         then trim (tl (dropWhile (\<lambda>c. c \<noteq> CHR '','') rawAuthor)) @ '' ''
              @ trim (takeWhile (\<lambda>c. c \<noteq> CHR '','') rawAuthor)
         else rawAuthor)"
  by (simp add: parseTitleLine_def Let_def normalizeAuthor_cases)

theorem author_normalization_witness:
  "0 < lastIndexOf ''Dune (Herbert, Frank)'' CHR ''(''
   \<and> rawAuthorOf ''Dune (Herbert, Frank)'' = ''Herbert, Frank''
   \<and> parseTitleLine ''Dune (Herbert, Frank)'' = (''Dune'', ''Frank Herbert'')"
proof -
  have a: "0 < lastIndexOf ''Dune (Herbert, Frank)'' CHR ''(''" by code_simp
  have b: "rawAuthorOf ''Dune (Herbert, Frank)'' = ''Herbert, Frank''" by code_simp
  have c: "fst (parseTitleLine ''Dune (Herbert, Frank)'') = ''Dune''" by code_simp
  have d: "trim (tl (dropWhile (\<lambda>c. c \<noteq> CHR '','') ''Herbert, Frank'')) = ''Frank''" by code_simp
  have e: "trim (takeWhile (\<lambda>c. c \<noteq> CHR '','') ''Herbert, Frank'') = ''Herbert''" by code_simp
  have "snd (parseTitleLine ''Dune (Herbert, Frank)'') = ''Frank Herbert''"
    using author_normalization [OF a] unfolding b Let_def d e by simp
  with a b c show ?thesis by (simp add: prod_eq_iff)
qed

section \<open>The clippings parser: grouping and discarded entries\<close>

lemma foldl_processSection:
  "foldl (processSection clock) st ss = foldl (addEntry clock) st (List.map_filter parseSection ss)"
  by (induction ss arbitrary: st) (auto simp: processSection_def List.map_filter_simps split: option.splits)

lemma firstKeys_snoc:
  "firstKeys (ks @ [k]) = (if k \<in> set ks then firstKeys ks else firstKeys ks @ [k])"
  by (simp add: firstKeys_def)

lemma set_firstKeys: "set (firstKeys ks) = set ks"
  by (simp add: firstKeys_def)

lemma distinct_firstKeys: "distinct (firstKeys ks)"
  by (simp add: firstKeys_def)

lemma membersOf_snoc:
  "membersOf k (es @ [e]) = membersOf k es @ (if entryKey e = k then [(length es, e)] else [])"
  by (simp add: membersOf_def enumerate_append_eq)

lemma membersOf_nonempty: "k \<in> set (map entryKey es) \<Longrightarrow> membersOf k es \<noteq> []"
proof -
  assume "k \<in> set (map entryKey es)"
  then obtain i where i: "i < length es" "entryKey (es ! i) = k"
    by (auto simp: in_set_conv_nth)
  then have "(i, es ! i) \<in> set (enumerate 0 es)" by (simp add: in_set_enumerate_eq)
  with i have "(i, es ! i) \<in> set (membersOf k es)" by (simp add: membersOf_def)
  then show ?thesis by auto
qed

lemma membersOf_empty: "k \<notin> set (map entryKey es) \<Longrightarrow> membersOf k es = []"
  by (auto simp: membersOf_def filter_empty_conv in_set_enumerate_eq)

lemma groupedBook_snoc_old:
  assumes "k' \<in> set (map entryKey es)"
  shows "groupedBook clock (es @ [e]) k' =
          (if k' = entryKey e
           then (groupedBook clock es k')\<lparr>i_highlights :=
                   i_highlights (groupedBook clock es k') @ [highlightOf clock (length es) e]\<rparr>
           else groupedBook clock es k')"
  using membersOf_nonempty [OF assms]
  by (auto simp: groupedBook_def membersOf_snoc Let_def)

lemma groupedBook_snoc_new:
  assumes "entryKey e \<notin> set (map entryKey es)"
  shows "groupedBook clock (es @ [e]) (entryKey e) =
          \<lparr>i_title = e_title e, i_author = e_author e,
           i_highlights = [highlightOf clock (length es) e]\<rparr>"
  using membersOf_empty [OF assms]
  by (simp add: groupedBook_def membersOf_snoc Let_def)

lemma pushHighlight_map:
  "pushHighlight key h (map (\<lambda>k. (k, f k)) ks) =
     map (\<lambda>k. (k, if k = key then (f k)\<lparr>i_highlights := i_highlights (f k) @ [h]\<rparr> else f k)) ks"
  by (induction ks) (auto simp: pushHighlight_def)

lemma pushHighlight_absent: "key \<notin> set (map fst bm) \<Longrightarrow> pushHighlight key h bm = bm"
  by (induction bm) (auto simp: pushHighlight_def)

lemma pushHighlight_append:
  "pushHighlight key h (xs @ ys) = pushHighlight key h xs @ pushHighlight key h ys"
  by (simp add: pushHighlight_def)

lemma map_fst_groupMap: "map fst (groupMap clock es) = firstKeys (map entryKey es)"
  by (simp add: groupMap_def o_def)

lemma addEntry_unfold:
  "addEntry clock (bm, t) e =
     (pushHighlight (entryKey e) (highlightOf clock t e)
        (if entryKey e \<in> set (map fst bm) then bm
         else bm @ [(entryKey e, \<lparr>i_title = e_title e, i_author = e_author e, i_highlights = []\<rparr>)]),
      Suc t)"
  by (simp add: addEntry_def Let_def entryKey_def highlightOf_def)

lemma addEntry_groupMap:
  "addEntry clock (groupMap clock es, length es) e = (groupMap clock (es @ [e]), Suc (length es))"
proof (cases "entryKey e \<in> set (map entryKey es)")
  case True
  have "pushHighlight (entryKey e) (highlightOf clock (length es) e) (groupMap clock es)
          = groupMap clock (es @ [e])"
  proof -
    have "map (\<lambda>k. (k, if k = entryKey e
                      then (groupedBook clock es k)\<lparr>i_highlights :=
                              i_highlights (groupedBook clock es k) @ [highlightOf clock (length es) e]\<rparr>
                      else groupedBook clock es k)) (firstKeys (map entryKey es))
          = map (\<lambda>k. (k, groupedBook clock (es @ [e]) k)) (firstKeys (map entryKey es))"
      by (rule map_cong) (auto simp: set_firstKeys groupedBook_snoc_old simp del: set_map)
    then show ?thesis using True
      by (simp add: groupMap_def pushHighlight_map firstKeys_snoc del: set_map)
  qed
  then show ?thesis using True
    by (simp add: addEntry_unfold map_fst_groupMap set_firstKeys del: set_map)
next
  case False
  have old: "map (\<lambda>k. (k, groupedBook clock (es @ [e]) k)) (firstKeys (map entryKey es))
          = groupMap clock es"
    unfolding groupMap_def
    by (rule map_cong) (use False in \<open>auto simp: set_firstKeys groupedBook_snoc_old simp del: set_map\<close>)
  have notin: "entryKey e \<notin> set (map fst (groupMap clock es))"
    using False by (simp add: map_fst_groupMap set_firstKeys del: set_map)
  have "pushHighlight (entryKey e) (highlightOf clock (length es) e)
          (groupMap clock es @
            [(entryKey e, \<lparr>i_title = e_title e, i_author = e_author e, i_highlights = []\<rparr>)])
        = groupMap clock (es @ [e])"
    using False old
    by (simp add: pushHighlight_append pushHighlight_absent [OF notin]
        groupMap_def [of clock "es @ [e]"] firstKeys_snoc groupedBook_snoc_new del: set_map)
       (simp add: pushHighlight_def)
  then show ?thesis using notin by (simp add: addEntry_unfold)
qed

lemma foldl_addEntry_groupMap:
  "foldl (addEntry clock) ([], 0) es = (groupMap clock es, length es)"
proof (induction es rule: rev_induct)
  case Nil
  then show ?case by (simp add: groupMap_def firstKeys_def)
next
  case (snoc e es)
  then show ?case by (simp add: addEntry_groupMap)
qed

lemma parseKindleClippings_groupMap:
  "parseKindleClippings clock text = map snd (groupMap clock (retainedEntries text))"
  by (simp add: parseKindleClippings_def foldl_processSection foldl_addEntry_groupMap
      retainedEntries_def)

lemma groupedBook_key:
  assumes "k \<in> set (map entryKey es)"
  shows "keyOf (i_title (groupedBook clock es k)) (i_author (groupedBook clock es k)) = k"
proof -
  have ne: "membersOf k es \<noteq> []" by (rule membersOf_nonempty [OF assms])
  then have "hd (membersOf k es) \<in> set (membersOf k es)" by simp
  then have "entryKey (snd (hd (membersOf k es))) = k" by (simp add: membersOf_def)
  then show ?thesis by (simp add: groupedBook_def Let_def entryKey_def)
qed

text \<open>
  Claim C7. The books returned for a clippings text are the grouping of its retained
  entries by the key \<open>lowercase(title) + "-" + lowercase(author)\<close>: one book for each
  key (the keys of the returned books are pairwise distinct), the books in the order in
  which their keys are first met, every book holding the highlights of all the retained
  entries with its key, in the order of the entries.
\<close>

theorem grouping_by_key:
  "parseKindleClippings clock text = groupEntries clock (retainedEntries text)
   \<and> distinct (map (\<lambda>b. keyOf (i_title b) (i_author b)) (parseKindleClippings clock text))"
proof -
  let ?es = "retainedEntries text"
  have a: "parseKindleClippings clock text = groupEntries clock ?es"
    by (simp add: parseKindleClippings_groupMap groupMap_def groupEntries_def o_def)
  have "map (\<lambda>b. keyOf (i_title b) (i_author b)) (groupEntries clock ?es)
          = firstKeys (map entryKey ?es)"
    unfolding groupEntries_def map_map o_def
    by (rule map_idI) (simp add: set_firstKeys groupedBook_key del: set_map)
  then show ?thesis using a by (simp add: distinct_firstKeys)
qed

lemma parseSection_Some_body:
  "parseSection section = Some e \<Longrightarrow> \<not> discarded section \<and> e_content e = bodyOf (split_lines (trim section))"
  by (auto simp: parseSection_def discarded_def Let_def split: if_splits prod.splits)

lemma parseSection_discarded: "discarded section \<Longrightarrow> parseSection section = None"
  by (auto simp: parseSection_def discarded_def Let_def split: if_splits prod.splits)

lemma retained_content:
  assumes "e \<in> set (retainedEntries text)"
  shows "e_content e \<noteq> [] \<and> \<not> startsWith (toLowerCase (e_content e)) ''bookmark''"
proof -
  from assms obtain s where "parseSection s = Some e"
    by (auto simp: retainedEntries_def List.map_filter_def)
  then show ?thesis using parseSection_Some_body [of s e] by (auto simp: discarded_def Let_def)
qed

lemma nth_mem_eq: "i < length xs \<Longrightarrow> xs ! i = x \<Longrightarrow> x \<in> set xs"
  by auto

lemma output_highlight_origin:
  assumes "b \<in> set (parseKindleClippings clock text)" "h \<in> set (i_highlights b)"
  shows "\<exists>e \<in> set (retainedEntries text). p_text h = e_content e"
proof -
  from assms(1) obtain k where b: "b = groupedBook clock (retainedEntries text) k"
    by (auto simp: parseKindleClippings_groupMap groupMap_def)
  with assms(2) obtain ie where "ie \<in> set (membersOf k (retainedEntries text))"
      "h = highlightOf clock (fst ie) (snd ie)"
    by (auto simp: groupedBook_def Let_def)
  then have "snd ie \<in> set (retainedEntries text)" "p_text h = e_content (snd ie)"
    by (auto simp: membersOf_def in_set_enumerate_eq highlightOf_def intro: nth_mem_eq)
  then show ?thesis by blast
qed

text \<open>
  Claim C5. A section whose body (the lines from the first non-blank line at index 2 or
  later, joined with newlines and trimmed) is empty or begins, in any letter case, with
  \<open>bookmark\<close> leaves the book map as it was: no book is created and no highlight is
  appended for it. No highlight of any returned book has such a text.
\<close>

theorem bookmark_entries_discarded:
  "(discarded section \<longrightarrow> processSection clock st section = st)
   \<and> (\<forall>b \<in> set (parseKindleClippings clock text). \<forall>h \<in> set (i_highlights b).
        p_text h \<noteq> [] \<and> \<not> startsWith (toLowerCase (p_text h)) ''bookmark'')"
proof
  show "discarded section \<longrightarrow> processSection clock st section = st"
    by (simp add: processSection_def parseSection_discarded)
next
  show "\<forall>b \<in> set (parseKindleClippings clock text). \<forall>h \<in> set (i_highlights b).
        p_text h \<noteq> [] \<and> \<not> startsWith (toLowerCase (p_text h)) ''bookmark''"
    using output_highlight_origin retained_content by metis
qed

theorem bookmark_entries_discarded_witness:
  "discarded ''Dune (Herbert, Frank)\<newline>- Your Bookmark on page 4\<newline>\<newline>BOOKMARK on page 4''
   \<and> processSection (\<lambda>_. ''t'') ([], 0)
        ''Dune (Herbert, Frank)\<newline>- Your Bookmark on page 4\<newline>\<newline>BOOKMARK on page 4'' = ([], 0)
   \<and> parseKindleClippings (\<lambda>_. ''t'')
        ''Dune (Herbert, Frank)\<newline>- Your Bookmark on page 4\<newline>\<newline>Bookmark on page 4\<newline>==========\<newline>Dune (Herbert, Frank)\<newline>- Your Highlight on page 5\<newline>\<newline>Fear is the mind-killer.\<newline>==========''
       = [\<lparr>i_title = ''Dune'', i_author = ''Frank Herbert'',
           i_highlights = [\<lparr>p_text = ''Fear is the mind-killer.'', page = Some ''5'',
                             location = None, p_createdAt = Some ''t''\<rparr>]\<rparr>]
   \<and> \<not> startsWith (toLowerCase ''Fear is the mind-killer.'') ''bookmark''"
proof -
  let ?sec = "''Dune (Herbert, Frank)\<newline>- Your Bookmark on page 4\<newline>\<newline>BOOKMARK on page 4''"
  let ?txt = "''Dune (Herbert, Frank)\<newline>- Your Bookmark on page 4\<newline>\<newline>Bookmark on page 4\<newline>==========\<newline>Dune (Herbert, Frank)\<newline>- Your Highlight on page 5\<newline>\<newline>Fear is the mind-killer.\<newline>==========''"
  let ?h = "\<lparr>p_text = ''Fear is the mind-killer.'', page = Some ''5'',
             location = None, p_createdAt = Some ''t''\<rparr>"
  let ?b = "\<lparr>i_title = ''Dune'', i_author = ''Frank Herbert'', i_highlights = [?h]\<rparr>"
  have d: "discarded ?sec" by code_simp
  have p: "parseKindleClippings (\<lambda>_. ''t'') ?txt = [?b]" by code_simp
  note inst = bookmark_entries_discarded [of ?sec "\<lambda>_. ''t''" "([], 0)" ?txt]
  from inst d have a: "processSection (\<lambda>_. ''t'') ([], 0) ?sec = ([], 0)" by blast
  from inst have "\<forall>b \<in> set [?b]. \<forall>h \<in> set (i_highlights b).
      p_text h \<noteq> [] \<and> \<not> startsWith (toLowerCase (p_text h)) ''bookmark''"
    unfolding p by blast
  then have c: "\<not> startsWith (toLowerCase ''Fear is the mind-killer.'') ''bookmark''" by simp
  from d a p c show ?thesis by blast
qed

section \<open>The reconciler: what the two loops do\<close>

lemma findIndex_Some:
  "findIndex P xs = Some i \<Longrightarrow> i < length xs \<and> P (xs ! i) \<and> (\<forall>j<i. \<not> P (xs ! j))"
proof (induction xs arbitrary: i)
  case Nil
  then show ?case by simp
next
  case (Cons x xs)
  show ?case
  proof (cases "P x")
    case True
    with Cons.prems show ?thesis by simp
  next
    case False
    with Cons.prems obtain k where k: "findIndex P xs = Some k" "i = Suc k" by auto
    from Cons.IH [OF k(1)] False k(2) show ?thesis by (auto simp: less_Suc_eq_0_disj)
  qed
qed

lemma findIndex_None: "findIndex P xs = None \<longleftrightarrow> (\<forall>x \<in> set xs. \<not> P x)"
  by (induction xs) auto

lemma findIndex_map_cong: "map P xs = map Q ys \<Longrightarrow> findIndex P xs = findIndex Q ys"
proof (induction xs arbitrary: ys)
  case Nil
  then show ?case by simp
next
  case (Cons x xs)
  then obtain y ys' where "ys = y # ys'" by (cases ys) auto
  with Cons show ?case by auto
qed

lemma addTotal_0 [simp]: "addTotal 0 i bs = bs"
  by (simp add: addTotal_def)

lemma length_addTotal [simp]: "length (addTotal k i bs) = length bs"
  by (simp add: addTotal_def)

lemma addTotal_bumpTotal: "addTotal k i (bumpTotal i bs) = addTotal (Suc k) i bs"
  by (simp add: addTotal_def bumpTotal_def)

lemma addTotal_nth:
  "j < length bs \<Longrightarrow>
   addTotal k i bs ! j = (if j = i then (bs ! j)\<lparr>totalHighlights := totalHighlights (bs ! j) + k\<rparr> else bs ! j)"
  by (simp add: addTotal_def)

lemma map_addTotal:
  assumes "\<And>b n. f (b\<lparr>totalHighlights := n\<rparr>) = f b"
  shows "map f (addTotal k i bs) = map f bs"
  by (rule nth_equalityI) (simp_all add: addTotal_nth assms)

lemma map_id_addTotal [simp]: "map b_id (addTotal k i bs) = map b_id bs"
  by (rule map_addTotal) simp

lemma map_titleMatches_addTotal [simp]:
  "map (titleMatches P) (addTotal k i bs) = map (titleMatches P) bs"
  by (rule map_addTotal) (simp add: titleMatches_def)

lemma findIndex_addTotal [simp]:
  "findIndex (titleMatches P) (addTotal k i bs) = findIndex (titleMatches P) bs"
  by (rule findIndex_map_cong) simp

lemma b_id_addTotal_nth [simp]: "b_id (addTotal k i bs ! j) = b_id (bs ! j)"
  by (simp add: addTotal_def nth_list_update)

lemma importHighlight_cases:
  "importHighlight ev idx bid (st, n) h =
     (if list_ex (\<lambda>eh. bookId eh = bid \<and> h_text eh = p_text h) (allHighlights st) then (st, n)
      else (st\<lparr>allHighlights := allHighlights st @
                  [\<lparr>h_id = randomUUID ev (tick st), bookId = bid, h_text = p_text h,
                    pageNumber = pageNumberOf h, thoughts = [],
                    h_createdAt = nowISO ev (tick st), imageUrl = None, source = Digital\<rparr>],
               addedCount := Suc (addedCount st),
               currentBooks := bumpTotal idx (currentBooks st),
               tick := Suc (tick st)\<rparr>, Suc n))"
  by (simp add: importHighlight_def Let_def)

lemma importHighlights_shape:
  assumes "foldl (importHighlight ev idx bid) (st, n) hs = (st', n')"
  shows "\<exists>new. allHighlights st' = allHighlights st @ new \<and> n' = n + length new
           \<and> addedCount st' = addedCount st + length new \<and> tick st' = tick st + length new
           \<and> updates st' = updates st
           \<and> currentBooks st' = addTotal (length new) idx (currentBooks st)
           \<and> (\<forall>x \<in> set new. bookId x = bid)
           \<and> (\<forall>h \<in> set hs. \<exists>eh \<in> set (allHighlights st'). bookId eh = bid \<and> h_text eh = p_text h)"
  using assms
proof (induction hs arbitrary: st n)
  case Nil
  then have "st' = st" "n' = n" by simp_all
  then show ?case by simp
next
  case (Cons h hs)
  obtain st1 n1 where s1: "importHighlight ev idx bid (st, n) h = (st1, n1)" by fastforce
  with Cons.prems have rest: "foldl (importHighlight ev idx bid) (st1, n1) hs = (st', n')" by simp
  from Cons.IH [OF rest] obtain new2 where ih:
    "allHighlights st' = allHighlights st1 @ new2" "n' = n1 + length new2"
    "addedCount st' = addedCount st1 + length new2" "tick st' = tick st1 + length new2"
    "updates st' = updates st1"
    "currentBooks st' = addTotal (length new2) idx (currentBooks st1)"
    "\<forall>x \<in> set new2. bookId x = bid"
    "\<forall>h \<in> set hs. \<exists>eh \<in> set (allHighlights st'). bookId eh = bid \<and> h_text eh = p_text h"
    by blast
  show ?case
  proof (cases "list_ex (\<lambda>eh. bookId eh = bid \<and> h_text eh = p_text h) (allHighlights st)")
    case True
    with s1 have eq: "st1 = st" "n1 = n" by (simp_all add: importHighlight_cases)
    from True have "\<exists>eh \<in> set (allHighlights st'). bookId eh = bid \<and> h_text eh = p_text h"
      using ih(1) eq by (auto simp: list_ex_iff)
    with ih eq show ?thesis by (intro exI [of _ new2]) simp
  next
    case False
    let ?x = "\<lparr>h_id = randomUUID ev (tick st), bookId = bid, h_text = p_text h,
                pageNumber = pageNumberOf h, thoughts = [],
                h_createdAt = nowISO ev (tick st), imageUrl = None, source = Digital\<rparr>"
    from False s1 have eq:
      "allHighlights st1 = allHighlights st @ [?x]" "n1 = Suc n"
      "addedCount st1 = Suc (addedCount st)" "tick st1 = Suc (tick st)"
      "updates st1 = updates st" "currentBooks st1 = bumpTotal idx (currentBooks st)"
      by (auto simp: importHighlight_cases)
    have "\<exists>eh \<in> set (allHighlights st'). bookId eh = bid \<and> h_text eh = p_text h"
      using ih(1) eq(1) by (intro bexI [of _ ?x]) simp_all
    with ih eq show ?thesis
      by (intro exI [of _ "?x # new2"]) (simp add: addTotal_bumpTotal)
  qed
qed

lemma importHighlights_noop:
  "list_all (\<lambda>h. list_ex (\<lambda>eh. bookId eh = bid \<and> h_text eh = p_text h) (allHighlights st)) hs
   \<Longrightarrow> foldl (importHighlight ev idx bid) (st, n) hs = (st, n)"
  by (induction hs) (simp_all add: importHighlight_cases)

text \<open>What one round of the outer loop does, in both of its cases.\<close>

lemma importBook_shape:
  "\<exists>new. allHighlights (importBook ev st P) = allHighlights st @ new
      \<and> addedCount (importBook ev st P) = addedCount st + length new
      \<and> updates (importBook ev st P)
          = updates st @ (if new = [] then [] else [(i_title P, length new)])
      \<and> currentBooks (importBook ev st P)
          = addTotal (length new) (targetIndex st P) (booksWithTarget ev st P)
      \<and> tick (importBook ev st P)
          = tick st + length new
            + (if findIndex (titleMatches P) (currentBooks st) = None then 1 else 0)
      \<and> (\<forall>x \<in> set new. bookId x = targetId ev st P)
      \<and> (\<forall>h \<in> set (i_highlights P). \<exists>eh \<in> set (allHighlights (importBook ev st P)).
            bookId eh = targetId ev st P \<and> h_text eh = p_text h)"
proof -
  let ?st1 = "case findIndex (titleMatches P) (currentBooks st) of
                Some i \<Rightarrow> st
              | None \<Rightarrow> st\<lparr>currentBooks := newBookFor ev (tick st) P # currentBooks st,
                            tick := Suc (tick st)\<rparr>"
  have b1: "currentBooks ?st1 = booksWithTarget ev st P"
    by (simp add: booksWithTarget_def split: option.splits)
  obtain st2 n where f:
    "foldl (importHighlight ev (targetIndex st P) (targetId ev st P)) (?st1, 0) (i_highlights P)
       = (st2, n)"
    by fastforce
  have ib: "importBook ev st P
              = (if n > 0 then st2\<lparr>updates := updates st2 @ [(i_title P, n)]\<rparr> else st2)"
    using f
    by (simp add: importBook_def Let_def targetIndex_def targetId_def booksWithTarget_def
        split: option.splits)
  from importHighlights_shape [OF f] obtain new where sh:
    "allHighlights st2 = allHighlights ?st1 @ new" "n = 0 + length new"
    "addedCount st2 = addedCount ?st1 + length new" "tick st2 = tick ?st1 + length new"
    "updates st2 = updates ?st1"
    "currentBooks st2 = addTotal (length new) (targetIndex st P) (currentBooks ?st1)"
    "\<forall>x \<in> set new. bookId x = targetId ev st P"
    "\<forall>h \<in> set (i_highlights P). \<exists>eh \<in> set (allHighlights st2).
        bookId eh = targetId ev st P \<and> h_text eh = p_text h"
    by blast
  have "allHighlights (importBook ev st P) = allHighlights st @ new"
    using ib sh(1) by (simp split: option.splits)
  moreover have "addedCount (importBook ev st P) = addedCount st + length new"
    using ib sh(3) by (simp split: option.splits)
  moreover have "updates (importBook ev st P)
      = updates st @ (if new = [] then [] else [(i_title P, length new)])"
    using ib sh(2,5) by (simp split: option.splits)
  moreover have "currentBooks (importBook ev st P)
      = addTotal (length new) (targetIndex st P) (booksWithTarget ev st P)"
    using ib sh(6) b1 by simp
  moreover have "tick (importBook ev st P)
      = tick st + length new
        + (if findIndex (titleMatches P) (currentBooks st) = None then 1 else 0)"
    using ib sh(4) by (simp split: option.splits)
  moreover have "\<forall>h \<in> set (i_highlights P). \<exists>eh \<in> set (allHighlights (importBook ev st P)).
      bookId eh = targetId ev st P \<and> h_text eh = p_text h"
    using ib sh(8) by simp
  ultimately show ?thesis using sh(7) by blast
qed

section \<open>The reconciler: importing a text again\<close>

lemma covered_iff:
  "covered st P \<longleftrightarrow>
     (\<exists>i. findIndex (titleMatches P) (currentBooks st) = Some i
        \<and> (\<forall>h \<in> set (i_highlights P). \<exists>eh \<in> set (allHighlights st).
              bookId eh = b_id (currentBooks st ! i) \<and> h_text eh = p_text h))"
  by (auto simp: covered_def list_all_iff list_ex_iff split: option.splits)

lemma covered_noop: "covered st P \<Longrightarrow> importBook ev st P = st"
  by (auto simp: covered_def importBook_def Let_def importHighlights_noop split: option.splits)

lemma titleMatches_newBookFor: "lookupKeepsTitle ev P \<Longrightarrow> titleMatches P (newBookFor ev t P)"
  by (auto simp: lookupKeepsTitle_def newBookFor_def searchForBook_def placeholderBook_def
      titleMatches_def split: option.splits)

lemma covered_after_import:
  assumes "findIndex (titleMatches P) (currentBooks st) = None \<Longrightarrow> lookupKeepsTitle ev P"
  shows "covered (importBook ev st P) P"
proof -
  from importBook_shape [of ev st P] obtain new :: "highlight list" where sh:
    "currentBooks (importBook ev st P)
       = addTotal (length new) (targetIndex st P) (booksWithTarget ev st P)"
    "\<forall>h \<in> set (i_highlights P). \<exists>eh \<in> set (allHighlights (importBook ev st P)).
        bookId eh = targetId ev st P \<and> h_text eh = p_text h"
    by blast
  have "findIndex (titleMatches P) (booksWithTarget ev st P) = Some (targetIndex st P)"
  proof (cases "findIndex (titleMatches P) (currentBooks st)")
    case None
    then show ?thesis using titleMatches_newBookFor [OF assms [OF None]]
      by (simp add: booksWithTarget_def targetIndex_def)
  next
    case (Some i)
    then show ?thesis by (simp add: booksWithTarget_def targetIndex_def)
  qed
  then show ?thesis using sh unfolding covered_iff by (simp add: targetId_def)
qed

lemma covered_preserved:
  assumes cov: "covered st P"
    and keep: "findIndex (titleMatches Q) (currentBooks st) = None \<Longrightarrow> lookupKeepsTitle ev Q"
  shows "covered (importBook ev st Q) P"
proof -
  from cov obtain i where i: "findIndex (titleMatches P) (currentBooks st) = Some i"
    and ex: "\<forall>h \<in> set (i_highlights P). \<exists>eh \<in> set (allHighlights st).
              bookId eh = b_id (currentBooks st ! i) \<and> h_text eh = p_text h"
    unfolding covered_iff by blast
  from importBook_shape [of ev st Q] obtain new where sh:
    "allHighlights (importBook ev st Q) = allHighlights st @ new"
    "currentBooks (importBook ev st Q)
       = addTotal (length new) (targetIndex st Q) (booksWithTarget ev st Q)"
    by blast
  show ?thesis
  proof (cases "findIndex (titleMatches Q) (currentBooks st)")
    case (Some j)
    then have "booksWithTarget ev st Q = currentBooks st" by (simp add: booksWithTarget_def)
    then show ?thesis using sh i ex unfolding covered_iff by auto
  next
    case None
    let ?nb = "newBookFor ev (tick st) Q"
    have bw: "booksWithTarget ev st Q = ?nb # currentBooks st"
      using None by (simp add: booksWithTarget_def)
    from findIndex_Some [OF i] have mi: "i < length (currentBooks st)"
      "titleMatches P (currentBooks st ! i)" by simp_all
    from None have "\<not> titleMatches Q (currentBooks st ! i)"
      using mi(1) by (simp add: findIndex_None)
    moreover have "titleMatches Q ?nb" by (rule titleMatches_newBookFor [OF keep [OF None]])
    ultimately have "\<not> titleMatches P ?nb" using mi(2) by (auto simp: titleMatches_def)
    then have "findIndex (titleMatches P) (currentBooks (importBook ev st Q)) = Some (Suc i)"
      using sh(2) bw i by simp
    moreover have "b_id (currentBooks (importBook ev st Q) ! Suc i) = b_id (currentBooks st ! i)"
      using sh(2) bw by simp
    ultimately show ?thesis using sh(1) ex unfolding covered_iff by auto
  qed
qed

lemma list_ex_titleMatches_importBook:
  assumes "list_ex (titleMatches P) (currentBooks st)"
  shows "list_ex (titleMatches P) (currentBooks (importBook ev st Q))"
proof -
  from importBook_shape [of ev st Q] obtain new :: "highlight list" where sh:
    "currentBooks (importBook ev st Q)
       = addTotal (length new) (targetIndex st Q) (booksWithTarget ev st Q)"
    by blast
  have "list_ex (titleMatches P) (booksWithTarget ev st Q)"
    using assms by (simp add: booksWithTarget_def split: option.splits)
  then have "True \<in> set (map (titleMatches P) (booksWithTarget ev st Q))"
    by (auto simp: list_ex_iff)
  then have "True \<in> set (map (titleMatches P) (currentBooks (importBook ev st Q)))"
    by (simp only: sh map_titleMatches_addTotal)
  then show ?thesis by (auto simp: list_ex_iff)
qed

lemma findIndex_None_list_ex: "findIndex P xs = None \<longleftrightarrow> \<not> list_ex P xs"
  by (simp add: findIndex_None list_ex_iff)

lemma reconcile_covers:
  assumes "\<forall>P \<in> set Ps. list_ex (titleMatches P) (currentBooks st) \<or> lookupKeepsTitle ev P"
    and "\<forall>P \<in> S. covered st P"
  shows "\<forall>P \<in> S \<union> set Ps. covered (foldl (importBook ev) st Ps) P"
  using assms
proof (induction Ps arbitrary: st S)
  case Nil
  then show ?case by simp
next
  case (Cons Q Qs)
  from Cons.prems(1)
  have q: "findIndex (titleMatches Q) (currentBooks st) = None \<Longrightarrow> lookupKeepsTitle ev Q"
    by (auto simp: findIndex_None_list_ex)
  have cov: "\<forall>P \<in> insert Q S. covered (importBook ev st Q) P"
    using Cons.prems(2) covered_after_import [OF q] covered_preserved [OF _ q] by auto
  have rest: "\<forall>P \<in> set Qs. list_ex (titleMatches P) (currentBooks (importBook ev st Q))
      \<or> lookupKeepsTitle ev P"
    using Cons.prems(1) list_ex_titleMatches_importBook by auto
  from Cons.IH [OF rest cov] show ?case by auto
qed

lemma foldl_importBook_noop:
  "\<forall>P \<in> set Ps. covered st P \<Longrightarrow> foldl (importBook ev) st Ps = st"
  by (induction Ps) (simp_all add: covered_noop)

lemma texts_ball_cong:
  assumes "map p_text hs = map p_text hs'"
  shows "(\<forall>h \<in> set hs. Q (p_text h)) = (\<forall>h \<in> set hs'. Q (p_text h))"
proof -
  have "(\<forall>h \<in> set hs. Q (p_text h)) = (\<forall>t \<in> set (map p_text hs). Q t)" by simp
  also have "\<dots> = (\<forall>t \<in> set (map p_text hs'). Q t)" by (simp only: assms)
  also have "\<dots> = (\<forall>h \<in> set hs'. Q (p_text h))" by simp
  finally show ?thesis .
qed

lemma sameContent_texts:
  "sameContent P P' \<Longrightarrow> map p_text (i_highlights P) = map p_text (i_highlights P')"
proof -
  assume "sameContent P P'"
  then have "map (\<lambda>h. (p_text h, page h, location h)) (i_highlights P)
      = map (\<lambda>h. (p_text h, page h, location h)) (i_highlights P')"
    by (simp add: sameContent_def)
  then have "map fst (map (\<lambda>h. (p_text h, page h, location h)) (i_highlights P))
      = map fst (map (\<lambda>h. (p_text h, page h, location h)) (i_highlights P'))"
    by (rule arg_cong)
  then show ?thesis by (simp add: o_def)
qed

lemma covered_cong:
  assumes "currentBooks st = currentBooks st'" "allHighlights st = allHighlights st'"
    "sameContent P P'"
  shows "covered st P = covered st' P'"
proof -
  from assms(3) have t: "titleMatches P = titleMatches P'"
    by (auto simp: sameContent_def titleMatches_def)
  note tx = texts_ball_cong [OF sameContent_texts [OF assms(3)]]
  show ?thesis
    unfolding covered_iff t assms(1) assms(2)
    by (simp only: tx [of "\<lambda>t. \<exists>eh \<in> set (allHighlights st'). bookId eh = b_id (currentBooks st' ! i) \<and> h_text eh = t" for i])
qed

lemma groupedBook_sameContent:
  "sameContent (groupedBook c1 es k) (groupedBook c2 es k)"
  by (simp add: sameContent_def groupedBook_def Let_def highlightOf_def)

lemma parseKindleClippings_sameContent:
  "list_all2 sameContent (parseKindleClippings c1 text) (parseKindleClippings c2 text)"
  by (simp add: parseKindleClippings_groupMap groupMap_def o_def list_all2_map1 list_all2_map2
      list_all2_same groupedBook_sameContent)

lemma sameContent_refl: "sameContent P P"
  by (simp add: sameContent_def)

lemma parseImportText_sameContent:
  "list_all2 sameContent (parseImportText ph c1 text) (parseImportText ph c2 text)"
  by (simp add: parseImportText_def Let_def parseKindleClippings_sameContent list_all2_same
      sameContent_refl)

lemma reconcile_fields:
  "handleBulkImport ev ph clock lib text = Inr (lib', s) \<Longrightarrow>
   parseImportText ph clock text \<noteq> []
   \<and> lib' = \<lparr>l_books = currentBooks (reconcile ev lib (parseImportText ph clock text)),
             l_highlights = allHighlights (reconcile ev lib (parseImportText ph clock text))\<rparr>
   \<and> totalBooksProcessed s = length (parseImportText ph clock text)"
  by (auto simp: handleBulkImport_def Let_def split: if_splits)

text \<open>
  Importing a text again changes nothing when every book that the first import creates
  still matches the parsed title: for every parsed book, either a stored book has its
  title, so that the book search is not consulted, or the book search fails or answers
  with the parsed title up to letter case. The second import may draw any identifiers and
  clock readings and get any search answers.
\<close>

lemma reimport_adds_nothing:
  assumes run1: "handleBulkImport ev1 ph clock1 lib text = Inr (lib1, s1)"
    and keep: "list_all (\<lambda>P. list_ex (titleMatches P) (l_books lib) \<or> lookupKeepsTitle ev1 P)
                 (parseImportText ph clock1 text)"
  shows "handleBulkImport ev2 ph clock2 lib1 text =
           Inr (lib1, \<lparr>totalBooksProcessed = totalBooksProcessed s1,
                       totalHighlightsAdded = 0, s_updates = []\<rparr>)"
proof -
  let ?Ps = "parseImportText ph clock1 text"
  let ?Qs = "parseImportText ph clock2 text"
  let ?st1 = "reconcile ev1 lib ?Ps"
  let ?init = "\<lparr>currentBooks = l_books lib1, allHighlights = l_highlights lib1, tick = 0,
                addedCount = 0, updates = []\<rparr>"
  from reconcile_fields [OF run1] have ne: "?Ps \<noteq> []"
    and lib1: "lib1 = \<lparr>l_books = currentBooks ?st1, l_highlights = allHighlights ?st1\<rparr>"
    and n1: "totalBooksProcessed s1 = length ?Ps" by simp_all
  have same: "list_all2 sameContent ?Ps ?Qs" by (rule parseImportText_sameContent)
  then have len: "length ?Qs = length ?Ps" by (simp add: list_all2_lengthD)
  with ne have ne2: "?Qs \<noteq> []" by auto
  have "\<forall>P \<in> {} \<union> set ?Ps. covered ?st1 P"
    unfolding reconcile_def
    by (rule reconcile_covers) (use keep in \<open>simp_all add: list_all_iff\<close>)
  then have cov1: "\<forall>P \<in> set ?Ps. covered ?st1 P" by simp
  have cov2: "\<forall>Q \<in> set ?Qs. covered ?init Q"
  proof
    fix Q assume "Q \<in> set ?Qs"
    then obtain j where j: "j < length ?Qs" "Q = ?Qs ! j" by (auto simp: in_set_conv_nth)
    with same len have sc: "sameContent (?Ps ! j) Q" by (simp add: list_all2_nthD2)
    from j len cov1 have "covered ?st1 (?Ps ! j)" by simp
    moreover have "covered ?st1 (?Ps ! j) = covered ?init Q"
      by (rule covered_cong) (simp_all add: lib1 sc)
    ultimately show "covered ?init Q" by simp
  qed
  have "reconcile ev2 lib1 ?Qs = ?init"
    unfolding reconcile_def by (rule foldl_importBook_noop [OF cov2])
  then show ?thesis using ne2 len n1 by (simp add: handleBulkImport_def Let_def)
qed

lemma reimport_adds_nothing_example:
  "handleBulkImport (sampleEnv ''DUNE'' ''F. Herbert'' CHR ''a'') (\<lambda>_. []) (\<lambda>_. ''t1'') emptyLibrary duneText =
     Inr (\<lparr>l_books = [\<lparr>b_id = ''a'', b_title = ''DUNE'', b_author = ''F. Herbert'',
                         coverUrl = ''cover'', totalHighlights = 1, lastRead = None\<rparr>],
           l_highlights = [\<lparr>h_id = ''ax'', bookId = ''a'', h_text = ''Fear is the mind-killer.'',
                              pageNumber = Some 5, thoughts = [], h_createdAt = ''now'',
                              imageUrl = None, source = Digital\<rparr>]\<rparr>,
          \<lparr>totalBooksProcessed = 1, totalHighlightsAdded = 1, s_updates = [(''Dune'', 1)]\<rparr>)
   \<and> handleBulkImport (sampleEnv ''Dune (Deluxe)'' ''F. Herbert'' CHR ''b'') (\<lambda>_. []) (\<lambda>_. ''t2'')
        \<lparr>l_books = [\<lparr>b_id = ''a'', b_title = ''DUNE'', b_author = ''F. Herbert'',
                      coverUrl = ''cover'', totalHighlights = 1, lastRead = None\<rparr>],
         l_highlights = [\<lparr>h_id = ''ax'', bookId = ''a'', h_text = ''Fear is the mind-killer.'',
                           pageNumber = Some 5, thoughts = [], h_createdAt = ''now'',
                           imageUrl = None, source = Digital\<rparr>]\<rparr> duneText =
     Inr (\<lparr>l_books = [\<lparr>b_id = ''a'', b_title = ''DUNE'', b_author = ''F. Herbert'',
                         coverUrl = ''cover'', totalHighlights = 1, lastRead = None\<rparr>],
           l_highlights = [\<lparr>h_id = ''ax'', bookId = ''a'', h_text = ''Fear is the mind-killer.'',
                              pageNumber = Some 5, thoughts = [], h_createdAt = ''now'',
                              imageUrl = None, source = Digital\<rparr>]\<rparr>,
          \<lparr>totalBooksProcessed = 1, totalHighlightsAdded = 0, s_updates = []\<rparr>)"
proof -
  let ?lib1 = "\<lparr>l_books = [\<lparr>b_id = ''a'', b_title = ''DUNE'', b_author = ''F. Herbert'',
                      coverUrl = ''cover'', totalHighlights = 1, lastRead = None\<rparr>],
         l_highlights = [\<lparr>h_id = ''ax'', bookId = ''a'', h_text = ''Fear is the mind-killer.'',
                           pageNumber = Some 5, thoughts = [], h_createdAt = ''now'',
                           imageUrl = None, source = Digital\<rparr>]\<rparr>"
  let ?s1 = "\<lparr>totalBooksProcessed = 1, totalHighlightsAdded = 1, s_updates = [(''Dune'', 1)]\<rparr>"
  have run1: "handleBulkImport (sampleEnv ''DUNE'' ''F. Herbert'' CHR ''a'') (\<lambda>_. []) (\<lambda>_. ''t1'') emptyLibrary duneText
      = Inr (?lib1, ?s1)"
    by code_simp
  have keep: "list_all (\<lambda>P. list_ex (titleMatches P) (l_books emptyLibrary)
        \<or> lookupKeepsTitle (sampleEnv ''DUNE'' ''F. Herbert'' CHR ''a'') P)
      (parseImportText (\<lambda>_. []) (\<lambda>_. ''t1'') duneText)"
    by code_simp
  from reimport_adds_nothing [OF run1 keep, of "sampleEnv ''Dune (Deluxe)'' ''F. Herbert'' CHR ''b''" "\<lambda>_. ''t2''"]
  have "handleBulkImport (sampleEnv ''Dune (Deluxe)'' ''F. Herbert'' CHR ''b'') (\<lambda>_. []) (\<lambda>_. ''t2'') ?lib1 duneText
      = Inr (?lib1, \<lparr>totalBooksProcessed = 1, totalHighlightsAdded = 0, s_updates = []\<rparr>)"
    by simp
  with run1 show ?thesis by blast
qed

text \<open>
  Claim C1. Importing the same clippings text a second time, against the library the
  first import left, should add no highlight and leave the highlights as they are. The
  code does not do so when the book search answers with another title than the parsed
  one: here it answers the query for \<open>Dune\<close> with \<open>Dune (Deluxe)\<close>. The book created
  by the first import then does not match the parsed title, and the second import, with
  identifiers of its own, creates a second book, stores the same highlight again under it
  and reports one added highlight.
\<close>

theorem reimport_duplicates_highlights:
  "handleBulkImport (sampleEnv ''Dune (Deluxe)'' ''F. Herbert'' CHR ''b'') (\<lambda>_. []) (\<lambda>_. ''t1'') emptyLibrary duneText =
     Inr (\<lparr>l_books = [\<lparr>b_id = ''b'', b_title = ''Dune (Deluxe)'', b_author = ''F. Herbert'',
                         coverUrl = ''cover'', totalHighlights = 1, lastRead = None\<rparr>],
           l_highlights = [\<lparr>h_id = ''bx'', bookId = ''b'', h_text = ''Fear is the mind-killer.'',
                              pageNumber = Some 5, thoughts = [], h_createdAt = ''now'',
                              imageUrl = None, source = Digital\<rparr>]\<rparr>,
          \<lparr>totalBooksProcessed = 1, totalHighlightsAdded = 1, s_updates = [(''Dune'', 1)]\<rparr>)
   \<and> handleBulkImport (sampleEnv ''Dune (Deluxe)'' ''F. Herbert'' CHR ''c'') (\<lambda>_. []) (\<lambda>_. ''t2'')
        \<lparr>l_books = [\<lparr>b_id = ''b'', b_title = ''Dune (Deluxe)'', b_author = ''F. Herbert'',
                      coverUrl = ''cover'', totalHighlights = 1, lastRead = None\<rparr>],
         l_highlights = [\<lparr>h_id = ''bx'', bookId = ''b'', h_text = ''Fear is the mind-killer.'',
                           pageNumber = Some 5, thoughts = [], h_createdAt = ''now'',
                           imageUrl = None, source = Digital\<rparr>]\<rparr> duneText =
     Inr (\<lparr>l_books = [\<lparr>b_id = ''c'', b_title = ''Dune (Deluxe)'', b_author = ''F. Herbert'',
                         coverUrl = ''cover'', totalHighlights = 1, lastRead = None\<rparr>,
                       \<lparr>b_id = ''b'', b_title = ''Dune (Deluxe)'', b_author = ''F. Herbert'',
                         coverUrl = ''cover'', totalHighlights = 1, lastRead = None\<rparr>],
           l_highlights = [\<lparr>h_id = ''bx'', bookId = ''b'', h_text = ''Fear is the mind-killer.'',
                              pageNumber = Some 5, thoughts = [], h_createdAt = ''now'',
                              imageUrl = None, source = Digital\<rparr>,
                           \<lparr>h_id = ''cx'', bookId = ''c'', h_text = ''Fear is the mind-killer.'',
                              pageNumber = Some 5, thoughts = [], h_createdAt = ''now'',
                              imageUrl = None, source = Digital\<rparr>]\<rparr>,
          \<lparr>totalBooksProcessed = 1, totalHighlightsAdded = 1, s_updates = [(''Dune'', 1)]\<rparr>)"
proof
  show "handleBulkImport (sampleEnv ''Dune (Deluxe)'' ''F. Herbert'' CHR ''b'') (\<lambda>_. []) (\<lambda>_. ''t1'') emptyLibrary duneText =
     Inr (\<lparr>l_books = [\<lparr>b_id = ''b'', b_title = ''Dune (Deluxe)'', b_author = ''F. Herbert'',
                         coverUrl = ''cover'', totalHighlights = 1, lastRead = None\<rparr>],
           l_highlights = [\<lparr>h_id = ''bx'', bookId = ''b'', h_text = ''Fear is the mind-killer.'',
                              pageNumber = Some 5, thoughts = [], h_createdAt = ''now'',
                              imageUrl = None, source = Digital\<rparr>]\<rparr>,
          \<lparr>totalBooksProcessed = 1, totalHighlightsAdded = 1, s_updates = [(''Dune'', 1)]\<rparr>)"
    by code_simp
next
  show "handleBulkImport (sampleEnv ''Dune (Deluxe)'' ''F. Herbert'' CHR ''c'') (\<lambda>_. []) (\<lambda>_. ''t2'')
        \<lparr>l_books = [\<lparr>b_id = ''b'', b_title = ''Dune (Deluxe)'', b_author = ''F. Herbert'',
                      coverUrl = ''cover'', totalHighlights = 1, lastRead = None\<rparr>],
         l_highlights = [\<lparr>h_id = ''bx'', bookId = ''b'', h_text = ''Fear is the mind-killer.'',
                           pageNumber = Some 5, thoughts = [], h_createdAt = ''now'',
                           imageUrl = None, source = Digital\<rparr>]\<rparr> duneText =
     Inr (\<lparr>l_books = [\<lparr>b_id = ''c'', b_title = ''Dune (Deluxe)'', b_author = ''F. Herbert'',
                         coverUrl = ''cover'', totalHighlights = 1, lastRead = None\<rparr>,
                       \<lparr>b_id = ''b'', b_title = ''Dune (Deluxe)'', b_author = ''F. Herbert'',
                         coverUrl = ''cover'', totalHighlights = 1, lastRead = None\<rparr>],
           l_highlights = [\<lparr>h_id = ''bx'', bookId = ''b'', h_text = ''Fear is the mind-killer.'',
                              pageNumber = Some 5, thoughts = [], h_createdAt = ''now'',
                              imageUrl = None, source = Digital\<rparr>,
                           \<lparr>h_id = ''cx'', bookId = ''c'', h_text = ''Fear is the mind-killer.'',
                              pageNumber = Some 5, thoughts = [], h_createdAt = ''now'',
                              imageUrl = None, source = Digital\<rparr>]\<rparr>,
          \<lparr>totalBooksProcessed = 1, totalHighlightsAdded = 1, s_updates = [(''Dune'', 1)]\<rparr>)"
    by code_simp
qed

section \<open>The end-to-end scenario\<close>

lemma retainedEntries_moby:
  "retainedEntries mobyText =
     [\<lparr>e_title = ''Moby Dick'', e_author = ''Herman Melville'', e_page = Some ''10'',
       e_content = ''Call me Ishmael.''\<rparr>,
      \<lparr>e_title = ''Moby Dick'', e_author = ''Herman Melville'', e_page = Some ''20'',
       e_content = ''It is a way I have.''\<rparr>]"
  by code_simp

lemma trim_moby: "trim mobyText = mobyText"
  by code_simp

lemma includes_moby: "includesStr mobyText ''==========''"
  by code_simp

lemma key_moby: "keyOf ''Moby Dick'' ''Herman Melville'' = ''moby dick-herman melville''"
  by code_simp

lemma parse_moby:
  "parseImportText ph clock mobyText =
     [\<lparr>i_title = ''Moby Dick'', i_author = ''Herman Melville'',
       i_highlights =
         [\<lparr>p_text = ''Call me Ishmael.'', page = Some ''10'', location = None,
           p_createdAt = Some (clock 0)\<rparr>,
          \<lparr>p_text = ''It is a way I have.'', page = Some ''20'', location = None,
           p_createdAt = Some (clock 1)\<rparr>]\<rparr>]"
  by (simp add: parseImportText_def trim_moby includes_moby parseKindleClippings_def
      foldl_processSection retainedEntries_def [symmetric] retainedEntries_moby
      addEntry_def Let_def key_moby pushHighlight_def)

lemma pageNumber_10: "parseInt ''10'' = Some 10"
  by code_simp

lemma pageNumber_20: "parseInt ''20'' = Some 20"
  by code_simp

lemma encode_moby: "encodeURIComponent ''Moby Dick'' = ''Moby%20Dick''"
  by code_simp

text \<open>
  Claim C3, as amended. Importing the two-entry text into an empty library gives one book
  with two highlights and the summary of one processed book, two added highlights and the
  update \<open>(Moby Dick, 2)\<close>. The book carries the title, the author and the cover that the
  book search returns for the query \<open>Moby Dick Herman Melville\<close>; when the search fails
  it is titled \<open>Moby Dick\<close>, by \<open>Herman Melville\<close>, with the placeholder cover.
\<close>

theorem moby_dick_end_to_end:
  "handleBulkImport ev ph clock emptyLibrary mobyText =
     Inr (\<lparr>l_books =
             [\<lparr>b_id = randomUUID ev 0,
               b_title = (case lookup ev ''Moby Dick Herman Melville'' of
                            None \<Rightarrow> ''Moby Dick'' | Some m \<Rightarrow> m_title m),
               b_author = (case lookup ev ''Moby Dick Herman Melville'' of
                             None \<Rightarrow> ''Herman Melville'' | Some m \<Rightarrow> m_author m),
               coverUrl = (case lookup ev ''Moby Dick Herman Melville'' of
                             None \<Rightarrow> ''https://placehold.co/400x600?text=Moby%20Dick''
                           | Some m \<Rightarrow> m_coverUrl m),
               totalHighlights = 2, lastRead = None\<rparr>],
           l_highlights =
             [\<lparr>h_id = randomUUID ev 1, bookId = randomUUID ev 0, h_text = ''Call me Ishmael.'',
               pageNumber = Some 10, thoughts = [], h_createdAt = nowISO ev 1,
               imageUrl = None, source = Digital\<rparr>,
              \<lparr>h_id = randomUUID ev 2, bookId = randomUUID ev 0, h_text = ''It is a way I have.'',
               pageNumber = Some 20, thoughts = [], h_createdAt = nowISO ev 2,
               imageUrl = None, source = Digital\<rparr>]\<rparr>,
          \<lparr>totalBooksProcessed = 1, totalHighlightsAdded = 2, s_updates = [(''Moby Dick'', 2)]\<rparr>)"
  by (simp add: handleBulkImport_def parse_moby reconcile_def emptyLibrary_def importBook_def
      importHighlight_def newBookFor_def searchForBook_def placeholderBook_def encode_moby
      pageNumberOf_def pageNumber_10 pageNumber_20 bumpTotal_def Let_def numeral_2_eq_2
      split: option.splits)

text \<open>
  Claim C3 as stated fails when the book search succeeds with another title: the one
  book of the library is then titled as the search says, not \<open>Moby Dick\<close>.
\<close>

theorem moby_dick_counterexample:
  "handleBulkImport (sampleEnv ''Moby-Dick; or, The Whale'' ''Herman Melville'' CHR ''m'')
       (\<lambda>_. []) (\<lambda>_. ''t'') emptyLibrary mobyText =
     Inr (\<lparr>l_books =
             [\<lparr>b_id = ''m'', b_title = ''Moby-Dick; or, The Whale'', b_author = ''Herman Melville'',
               coverUrl = ''cover'', totalHighlights = 2, lastRead = None\<rparr>],
           l_highlights =
             [\<lparr>h_id = ''mx'', bookId = ''m'', h_text = ''Call me Ishmael.'',
               pageNumber = Some 10, thoughts = [], h_createdAt = ''now'',
               imageUrl = None, source = Digital\<rparr>,
              \<lparr>h_id = ''mxx'', bookId = ''m'', h_text = ''It is a way I have.'',
               pageNumber = Some 20, thoughts = [], h_createdAt = ''now'',
               imageUrl = None, source = Digital\<rparr>]\<rparr>,
          \<lparr>totalBooksProcessed = 1, totalHighlightsAdded = 2, s_updates = [(''Moby Dick'', 2)]\<rparr>)
   \<and> ''Moby-Dick; or, The Whale'' \<noteq> ''Moby Dick''"
  by code_simp

section \<open>The reconciler: what an import leaves alone\<close>

lemma keptAs_refl: "keptAs Ps b b"
  by (simp add: keptAs_def)

lemma keptAs_trans:
  assumes "keptAs [P] a b" "keptAs Ps b c"
  shows "keptAs (P # Ps) a c"
proof -
  from assms(1) have ab: "b = a\<lparr>totalHighlights := totalHighlights b\<rparr>" by (simp add: keptAs_def)
  from assms(2) have bc: "c = b\<lparr>totalHighlights := totalHighlights c\<rparr>" by (simp add: keptAs_def)
  have tm: "\<And>Q. titleMatches Q b = titleMatches Q a"
    by (subst ab) (simp add: titleMatches_def)
  have 1: "c = a\<lparr>totalHighlights := totalHighlights c\<rparr>"
    by (subst bc, subst ab) simp
  have 2: "totalHighlights a \<le> totalHighlights c"
    using assms by (simp add: keptAs_def)
  have 3: "list_all (\<lambda>Q. \<not> titleMatches Q a) (P # Ps) \<longrightarrow> c = a"
    using assms by (simp add: keptAs_def tm)
  from 1 2 3 show ?thesis unfolding keptAs_def by blast
qed

lemma importBook_frame_books:
  "\<exists>pre kept. currentBooks (importBook ev st P) = pre @ kept
      \<and> list_all2 (keptAs [P]) (currentBooks st) kept"
proof -
  from importBook_shape [of ev st P] obtain new :: "highlight list" where sh:
    "currentBooks (importBook ev st P)
       = addTotal (length new) (targetIndex st P) (booksWithTarget ev st P)"
    by blast
  show ?thesis
  proof (cases "findIndex (titleMatches P) (currentBooks st)")
    case None
    then have "currentBooks (importBook ev st P)
        = [(newBookFor ev (tick st) P)\<lparr>totalHighlights :=
              totalHighlights (newBookFor ev (tick st) P) + length new\<rparr>] @ currentBooks st"
      using sh by (simp add: targetIndex_def booksWithTarget_def addTotal_def)
    moreover have "list_all2 (keptAs [P]) (currentBooks st) (currentBooks st)"
      by (simp add: list_all2_same keptAs_refl)
    ultimately show ?thesis by blast
  next
    case (Some i)
    then have eq: "currentBooks (importBook ev st P) = [] @ addTotal (length new) i (currentBooks st)"
      using sh by (simp add: targetIndex_def booksWithTarget_def)
    from findIndex_Some [OF Some] have m: "titleMatches P (currentBooks st ! i)" by simp
    have "list_all2 (keptAs [P]) (currentBooks st) (addTotal (length new) i (currentBooks st))"
      unfolding list_all2_conv_all_nth
      using m by (auto simp: addTotal_nth keptAs_def)
    with eq show ?thesis by blast
  qed
qed

lemma foldl_importBook_frame:
  "\<exists>new added kept.
      allHighlights (foldl (importBook ev) st Ps) = allHighlights st @ new
      \<and> currentBooks (foldl (importBook ev) st Ps) = added @ kept
      \<and> list_all2 (keptAs Ps) (currentBooks st) kept"
proof (induction Ps arbitrary: st)
  case Nil
  have "list_all2 (keptAs []) (currentBooks st) (currentBooks st)"
    by (simp add: list_all2_same keptAs_refl)
  then have "allHighlights st = allHighlights st @ [] \<and> currentBooks st = [] @ currentBooks st
      \<and> list_all2 (keptAs []) (currentBooks st) (currentBooks st)" by simp
  then show ?case unfolding foldl_Nil by blast
next
  case (Cons P Ps)
  let ?st1 = "importBook ev st P"
  from importBook_shape [of ev st P] obtain new1 where h1:
    "allHighlights ?st1 = allHighlights st @ new1" by blast
  from importBook_frame_books [of ev st P] obtain pre k1 where b1:
    "currentBooks ?st1 = pre @ k1" "list_all2 (keptAs [P]) (currentBooks st) k1" by blast
  from Cons.IH [of ?st1] obtain new2 added kept2 where ih:
    "allHighlights (foldl (importBook ev) ?st1 Ps) = allHighlights ?st1 @ new2"
    "currentBooks (foldl (importBook ev) ?st1 Ps) = added @ kept2"
    "list_all2 (keptAs Ps) (currentBooks ?st1) kept2" by blast
  from ih(3) b1(1) obtain us vs where sp: "kept2 = us @ vs" "list_all2 (keptAs Ps) k1 vs"
    by (auto simp: list_all2_append1)
  have "list_all2 (keptAs (P # Ps)) (currentBooks st) vs"
    by (rule list_all2_trans [OF _ b1(2) sp(2)]) (rule keptAs_trans)
  moreover have "allHighlights (foldl (importBook ev) st (P # Ps)) = allHighlights st @ (new1 @ new2)"
    by (simp add: ih(1) h1)
  moreover have "currentBooks (foldl (importBook ev) st (P # Ps)) = (added @ us) @ vs"
    by (simp add: ih(2) sp(1))
  ultimately show ?case by blast
qed

text \<open>
  Claim C10. Reconciliation only appends to the highlight list: the stored highlights
  come first, unchanged and in their order. The stored books are all still there, in
  their order, behind the books the import created; each keeps its identifier, title,
  author, cover and last-read mark, its counter has not gone down, and a book whose title
  matches no parsed book is unchanged altogether.
\<close>

theorem reconcile_frame:
  "\<exists>new added kept.
      allHighlights (reconcile ev lib Ps) = l_highlights lib @ new
      \<and> currentBooks (reconcile ev lib Ps) = added @ kept
      \<and> list_all2 (\<lambda>b b'. b_id b' = b_id b \<and> b_title b' = b_title b \<and> b_author b' = b_author b
                       \<and> coverUrl b' = coverUrl b \<and> lastRead b' = lastRead b
                       \<and> totalHighlights b \<le> totalHighlights b'
                       \<and> (list_all (\<lambda>P. \<not> titleMatches P b) Ps \<longrightarrow> b' = b))
            (l_books lib) kept"
proof -
  let ?init = "\<lparr>currentBooks = l_books lib, allHighlights = l_highlights lib, tick = 0,
                addedCount = 0, updates = []\<rparr>"
  from foldl_importBook_frame [of ev ?init Ps] obtain new added kept where f:
    "allHighlights (reconcile ev lib Ps) = l_highlights lib @ new"
    "currentBooks (reconcile ev lib Ps) = added @ kept"
    "list_all2 (keptAs Ps) (l_books lib) kept"
    unfolding reconcile_def by auto
  have "list_all2 (\<lambda>b b'. b_id b' = b_id b \<and> b_title b' = b_title b \<and> b_author b' = b_author b
                       \<and> coverUrl b' = coverUrl b \<and> lastRead b' = lastRead b
                       \<and> totalHighlights b \<le> totalHighlights b'
                       \<and> (list_all (\<lambda>P. \<not> titleMatches P b) Ps \<longrightarrow> b' = b))
            (l_books lib) kept"
  proof (rule list_all2_mono [OF f(3)])
    fix b b' assume k: "keptAs Ps b b'"
    then have e: "b' = b\<lparr>totalHighlights := totalHighlights b'\<rparr>" by (simp add: keptAs_def)
    have "b_id b' = b_id b \<and> b_title b' = b_title b \<and> b_author b' = b_author b
        \<and> coverUrl b' = coverUrl b \<and> lastRead b' = lastRead b"
      by (subst e, simp)+
    with k show "b_id b' = b_id b \<and> b_title b' = b_title b \<and> b_author b' = b_author b
                       \<and> coverUrl b' = coverUrl b \<and> lastRead b' = lastRead b
                       \<and> totalHighlights b \<le> totalHighlights b'
                       \<and> (list_all (\<lambda>P. \<not> titleMatches P b) Ps \<longrightarrow> b' = b)"
      by (simp add: keptAs_def)
  qed
  with f(1,2) show ?thesis by blast
qed

theorem reconcile_frame_witness:
  "list_all (\<lambda>P. \<not> titleMatches P
        \<lparr>b_id = ''o1'', b_title = ''Other'', b_author = ''A. Nother'', coverUrl = ''c1'',
         totalHighlights = 1, lastRead = None\<rparr>) [duneParsed]
   \<and> (\<exists>new added d.
         allHighlights (reconcile (offlineEnv CHR ''p'') sampleLibrary [duneParsed])
           = l_highlights sampleLibrary @ new
         \<and> currentBooks (reconcile (offlineEnv CHR ''p'') sampleLibrary [duneParsed])
           = added @ [\<lparr>b_id = ''o1'', b_title = ''Other'', b_author = ''A. Nother'',
                        coverUrl = ''c1'', totalHighlights = 1, lastRead = None\<rparr>, d]
         \<and> b_id d = ''d1'' \<and> b_title d = ''DUNE'' \<and> lastRead d = Some ''yesterday'')"
proof -
  let ?other = "\<lparr>b_id = ''o1'', b_title = ''Other'', b_author = ''A. Nother'', coverUrl = ''c1'',
         totalHighlights = 1, lastRead = None\<rparr>"
  let ?dune = "\<lparr>b_id = ''d1'', b_title = ''DUNE'', b_author = ''F. Herbert'', coverUrl = ''c2'',
          totalHighlights = 0, lastRead = Some ''yesterday''\<rparr>"
  let ?st = "reconcile (offlineEnv CHR ''p'') sampleLibrary [duneParsed]"
  have bs: "l_books sampleLibrary = [?other, ?dune]" by (simp add: sampleLibrary_def)
  have un: "list_all (\<lambda>P. \<not> titleMatches P ?other) [duneParsed]" by code_simp
  from reconcile_frame [of "offlineEnv CHR ''p''" sampleLibrary "[duneParsed]"]
  obtain new added kept where f:
    "allHighlights ?st = l_highlights sampleLibrary @ new"
    "currentBooks ?st = added @ kept"
    "list_all2 (\<lambda>b b'. b_id b' = b_id b \<and> b_title b' = b_title b \<and> b_author b' = b_author b
                       \<and> coverUrl b' = coverUrl b \<and> lastRead b' = lastRead b
                       \<and> totalHighlights b \<le> totalHighlights b'
                       \<and> (list_all (\<lambda>P. \<not> titleMatches P b) [duneParsed] \<longrightarrow> b' = b))
            [?other, ?dune] kept"
    unfolding bs by blast
  from f(3) obtain k0 k1 where k: "kept = [k0, k1]"
    "list_all (\<lambda>P. \<not> titleMatches P ?other) [duneParsed] \<longrightarrow> k0 = ?other"
    "b_id k1 = ''d1''" "b_title k1 = ''DUNE''" "lastRead k1 = Some ''yesterday''"
    by (auto simp: list_all2_Cons1)
  from k(2) un have "k0 = ?other" by blast
  with f(1,2) k have "\<exists>new added d.
         allHighlights ?st = l_highlights sampleLibrary @ new
         \<and> currentBooks ?st = added @ [?other, d]
         \<and> b_id d = ''d1'' \<and> b_title d = ''DUNE'' \<and> lastRead d = Some ''yesterday''"
    by blast
  with un show ?thesis by blast
qed

section \<open>The reconciler: merge target and placeholder\<close>

lemma findIndex_first:
  "i < length xs \<Longrightarrow> P (xs ! i) \<Longrightarrow> (\<forall>j<i. \<not> P (xs ! j)) \<Longrightarrow> findIndex P xs = Some i"
proof (induction xs arbitrary: i)
  case Nil
  then show ?case by simp
next
  case (Cons x xs)
  show ?case
  proof (cases i)
    case 0
    with Cons.prems show ?thesis by simp
  next
    case (Suc k)
    with Cons.prems have "\<not> P x" by auto
    moreover have "findIndex P xs = Some k"
      using Cons.prems Suc by (intro Cons.IH) auto
    ultimately show ?thesis using Suc by simp
  qed
qed

lemma importBook_author_irrelevant:
  "findIndex (titleMatches P) (currentBooks st) = Some i \<Longrightarrow>
   importBook ev st (P\<lparr>i_author := a\<rparr>) = importBook ev st P"
  by (simp add: importBook_def titleMatches_def [abs_def] cong: if_cong)

lemma importBook_matched:
  assumes "findIndex (titleMatches P) (currentBooks st) = Some i"
  shows "\<exists>new. allHighlights (importBook ev st P) = allHighlights st @ new
      \<and> currentBooks (importBook ev st P) = addTotal (length new) i (currentBooks st)
      \<and> (\<forall>x \<in> set new. bookId x = b_id (currentBooks st ! i))
      \<and> (\<forall>h \<in> set (i_highlights P). \<exists>eh \<in> set (allHighlights (importBook ev st P)).
            bookId eh = b_id (currentBooks st ! i) \<and> h_text eh = p_text h)"
  using importBook_shape [of ev st P] assms
  by (simp add: targetIndex_def booksWithTarget_def targetId_def) blast

lemma findIndex_append_none:
  "\<forall>x \<in> set xs. \<not> P x \<Longrightarrow> findIndex P ys = Some k \<Longrightarrow>
   findIndex P (xs @ ys) = Some (length xs + k)"
  by (induction xs) simp_all

lemma keptAs_views:
  assumes "list_all2 (keptAs Ps) bs kept"
  shows "map (titleMatches P) kept = map (titleMatches P) bs \<and> map b_id kept = map b_id bs"
proof -
  have "list_all2 (\<lambda>b k. titleMatches P k = titleMatches P b \<and> b_id k = b_id b) bs kept"
  proof (rule list_all2_mono [OF assms])
    fix b k assume "keptAs Ps b k"
    then have ek: "k = b\<lparr>totalHighlights := totalHighlights k\<rparr>" by (simp add: keptAs_def)
    show "titleMatches P k = titleMatches P b \<and> b_id k = b_id b"
      by (subst ek, simp add: titleMatches_def)+
  qed
  then show ?thesis
    by (induction bs kept rule: list_all2_induct) simp_all
qed

lemma foldl_importBook_appends:
  "\<exists>new. allHighlights (foldl (importBook ev) st Ps) = allHighlights st @ new"
proof (induction Ps arbitrary: st)
  case Nil
  then show ?case by simp
next
  case (Cons P Ps)
  from importBook_shape [of ev st P] obtain new1 where
    "allHighlights (importBook ev st P) = allHighlights st @ new1" by blast
  moreover from Cons [of "importBook ev st P"] obtain new2 where
    "allHighlights (foldl (importBook ev) (importBook ev st P) Ps)
       = allHighlights (importBook ev st P) @ new2" by blast
  ultimately have "allHighlights (foldl (importBook ev) st (P # Ps))
      = allHighlights st @ (new1 @ new2)" by simp
  then show ?case by blast
qed

text \<open>
  Claim C8, as amended. The merge target of a parsed book is the first book of the list
  as it stands when the book's turn comes (the books created earlier in the run in front,
  then the stored books) whose title equals the parsed title up to letter case. The
  author plays no part: changing the author of the parsed book changes nothing. A later
  parsed book with the same title up to letter case, whatever its author, is merged into
  the same stored book, provided that none of the books created between the two, which
  stand in front of the list, has that title up to letter case: every highlight added
  for either of the two carries the identifier of that stored book, and all their
  highlight texts are stored under it.
\<close>

theorem merge_target_by_title:
  assumes first: "i < length (currentBooks st)"
      "toLowerCase (b_title (currentBooks st ! i)) = toLowerCase (i_title P)"
      "\<forall>j<i. toLowerCase (b_title (currentBooks st ! j)) \<noteq> toLowerCase (i_title P)"
    and same: "toLowerCase (i_title Q) = toLowerCase (i_title P)"
    and created: "\<forall>b \<in> set (take
          (length (currentBooks (foldl (importBook ev) (importBook ev st P) mid))
             - length (currentBooks st))
          (currentBooks (foldl (importBook ev) (importBook ev st P) mid))).
        toLowerCase (b_title b) \<noteq> toLowerCase (i_title P)"
  shows "importBook ev st (P\<lparr>i_author := a\<rparr>) = importBook ev st P
    \<and> (\<exists>newP newM newQ.
          allHighlights (importBook ev st P) = allHighlights st @ newP
          \<and> allHighlights (foldl (importBook ev) (importBook ev st P) mid)
              = allHighlights st @ newP @ newM
          \<and> allHighlights (importBook ev (foldl (importBook ev) (importBook ev st P) mid) Q)
              = allHighlights st @ newP @ newM @ newQ
          \<and> (\<forall>x \<in> set (newP @ newQ). bookId x = b_id (currentBooks st ! i))
          \<and> (\<forall>h \<in> set (i_highlights P) \<union> set (i_highlights Q).
                \<exists>eh \<in> set (allHighlights
                          (importBook ev (foldl (importBook ev) (importBook ev st P) mid) Q)).
                  bookId eh = b_id (currentBooks st ! i) \<and> h_text eh = p_text h))"
proof
  let ?d = "b_id (currentBooks st ! i)"
  have fP: "findIndex (titleMatches P) (currentBooks st) = Some i"
    using first by (intro findIndex_first) (simp_all add: titleMatches_def)
  show "importBook ev st (P\<lparr>i_author := a\<rparr>) = importBook ev st P"
    by (rule importBook_author_irrelevant [OF fP])
  let ?st1 = "importBook ev st P"
  let ?st2 = "foldl (importBook ev) ?st1 mid"
  let ?st3 = "importBook ev ?st2 Q"
  from importBook_matched [OF fP, of ev] obtain newP where s1:
    "allHighlights ?st1 = allHighlights st @ newP"
    "currentBooks ?st1 = addTotal (length newP) i (currentBooks st)"
    "\<forall>x \<in> set newP. bookId x = ?d"
    "\<forall>h \<in> set (i_highlights P). \<exists>eh \<in> set (allHighlights ?st1).
        bookId eh = ?d \<and> h_text eh = p_text h"
    by blast
  have f1: "findIndex (titleMatches P) (currentBooks ?st1) = Some i"
    using fP by (simp add: s1(2))
  have id1: "b_id (currentBooks ?st1 ! i) = ?d" by (simp add: s1(2))
  have len1: "length (currentBooks ?st1) = length (currentBooks st)" by (simp add: s1(2))
  from foldl_importBook_frame [of ev ?st1 mid] obtain added kept where fr:
    "currentBooks ?st2 = added @ kept" "list_all2 (keptAs mid) (currentBooks ?st1) kept"
    by blast
  from fr(2) len1 have lk: "length kept = length (currentBooks st)"
    by (simp add: list_all2_lengthD)
  from keptAs_views [OF fr(2), of P] have views:
    "map (titleMatches P) kept = map (titleMatches P) (currentBooks ?st1)"
    "map b_id kept = map b_id (currentBooks ?st1)" by simp_all
  have fk: "findIndex (titleMatches P) kept = Some i"
    using findIndex_map_cong [OF views(1)] f1 by simp
  have ik: "b_id (kept ! i) = ?d"
  proof -
    have "map b_id kept ! i = map b_id (currentBooks ?st1) ! i" by (simp only: views(2))
    then show ?thesis using first(1) lk len1 id1 by simp
  qed
  have "take (length (currentBooks ?st2) - length (currentBooks st)) (currentBooks ?st2) = added"
    by (simp add: fr(1) lk)
  with created have "\<forall>b \<in> set added. \<not> titleMatches P b" by (simp add: titleMatches_def)
  then have j2: "findIndex (titleMatches P) (currentBooks ?st2) = Some (length added + i)"
    "b_id (currentBooks ?st2 ! (length added + i)) = ?d"
    using fk ik by (simp_all add: fr(1) findIndex_append_none)
  from foldl_importBook_appends [of ev ?st1 mid] obtain newM where s2:
    "allHighlights ?st2 = allHighlights ?st1 @ newM" by blast
  have tm: "titleMatches Q = titleMatches P" using same by (simp add: titleMatches_def [abs_def])
  have fQ: "findIndex (titleMatches Q) (currentBooks ?st2) = Some (length added + i)"
    using j2(1) by (simp add: tm)
  from importBook_matched [OF fQ, of ev] obtain newQ where s3:
    "allHighlights ?st3 = allHighlights ?st2 @ newQ"
    "\<forall>x \<in> set newQ. bookId x = b_id (currentBooks ?st2 ! (length added + i))"
    "\<forall>h \<in> set (i_highlights Q). \<exists>eh \<in> set (allHighlights ?st3).
        bookId eh = b_id (currentBooks ?st2 ! (length added + i)) \<and> h_text eh = p_text h"
    by blast
  have stored: "\<forall>h \<in> set (i_highlights P) \<union> set (i_highlights Q).
      \<exists>eh \<in> set (allHighlights ?st3). bookId eh = ?d \<and> h_text eh = p_text h"
  proof
    fix h assume "h \<in> set (i_highlights P) \<union> set (i_highlights Q)"
    then consider "h \<in> set (i_highlights P)" | "h \<in> set (i_highlights Q)" by blast
    then show "\<exists>eh \<in> set (allHighlights ?st3). bookId eh = ?d \<and> h_text eh = p_text h"
    proof cases
      case 1
      with s1(4) obtain eh where "eh \<in> set (allHighlights ?st1)"
        "bookId eh = ?d \<and> h_text eh = p_text h" by blast
      then show ?thesis using s2 s3(1) by auto
    next
      case 2
      with s3(3) j2(2) show ?thesis by auto
    qed
  qed
  have "allHighlights ?st2 = allHighlights st @ newP @ newM" by (simp add: s2 s1(1))
  moreover have "allHighlights ?st3 = allHighlights st @ newP @ newM @ newQ"
    by (simp add: s3(1) s2 s1(1))
  moreover have "\<forall>x \<in> set (newP @ newQ). bookId x = ?d"
    using s1(3) s3(2) j2(2) by auto
  ultimately show "\<exists>newP newM newQ.
          allHighlights ?st1 = allHighlights st @ newP
          \<and> allHighlights ?st2 = allHighlights st @ newP @ newM
          \<and> allHighlights ?st3 = allHighlights st @ newP @ newM @ newQ
          \<and> (\<forall>x \<in> set (newP @ newQ). bookId x = ?d)
          \<and> (\<forall>h \<in> set (i_highlights P) \<union> set (i_highlights Q).
                \<exists>eh \<in> set (allHighlights ?st3). bookId eh = ?d \<and> h_text eh = p_text h)"
    using s1(1) stored by blast
qed

theorem merge_target_by_title_witness:
  "toLowerCase ''DUNE'' = toLowerCase ''Dune'' \<and> toLowerCase ''Other'' \<noteq> toLowerCase ''Dune''
   \<and> toLowerCase ''dune'' = toLowerCase ''Dune''
   \<and> map b_title (take 1 (currentBooks (foldl (importBook (offlineEnv CHR ''p''))
                (importBook (offlineEnv CHR ''p'') twoBooks duneParsed) [duneMessiah])))
       = [''Dune Messiah'']
   \<and> toLowerCase ''Dune Messiah'' \<noteq> toLowerCase ''Dune''
   \<and> importBook (offlineEnv CHR ''p'') twoBooks (duneParsed\<lparr>i_author := ''Anyone''\<rparr>)
       = importBook (offlineEnv CHR ''p'') twoBooks duneParsed
   \<and> map (\<lambda>h. (h_text h, bookId h))
        (allHighlights (foldl (importBook (offlineEnv CHR ''p'')) twoBooks
           [duneParsed, duneMessiah, duneOther]))
       = [(''Fear is the mind-killer.'', ''d1''), (''Here lies a toppled god.'', ''px''),
          (''The spice must flow.'', ''d1'')]
   \<and> (\<exists>eh. eh \<in> set (allHighlights (foldl (importBook (offlineEnv CHR ''p'')) twoBooks
                 [duneParsed, duneMessiah, duneOther]))
          \<and> bookId eh = ''d1'' \<and> h_text eh = ''The spice must flow.'')"
proof -
  let ?ev = "offlineEnv CHR ''p''"
  have l1: "toLowerCase ''DUNE'' = toLowerCase ''Dune''" by code_simp
  have l2: "toLowerCase ''Other'' \<noteq> toLowerCase ''Dune''" by code_simp
  have l3: "toLowerCase ''dune'' = toLowerCase ''Dune''" by code_simp
  have l4: "toLowerCase ''Dune Messiah'' \<noteq> toLowerCase ''Dune''" by code_simp
  have l5: "map b_title (take 1 (currentBooks (foldl (importBook ?ev)
                (importBook ?ev twoBooks duneParsed) [duneMessiah]))) = [''Dune Messiah'']"
    by code_simp
  have tP: "i_title duneParsed = ''Dune''" and tQ: "i_title duneOther = ''dune''"
    and tM: "i_title duneMessiah = ''Dune Messiah''" "i_author duneMessiah = ''Frank Herbert''"
    and hQ: "i_highlights duneOther = [\<lparr>p_text = ''The spice must flow.'', page = None,
                        location = None, p_createdAt = None\<rparr>]"
    by (simp_all add: duneParsed_def duneOther_def duneMessiah_def)
  have d1: "b_id (currentBooks twoBooks ! 1) = ''d1''" by (simp add: twoBooks_def)
  have h1: "1 < length (currentBooks twoBooks)" by (simp add: twoBooks_def)
  have h2: "toLowerCase (b_title (currentBooks twoBooks ! 1)) = toLowerCase (i_title duneParsed)"
    by (simp add: twoBooks_def tP l1)
  have h3: "\<forall>j<1. toLowerCase (b_title (currentBooks twoBooks ! j)) \<noteq> toLowerCase (i_title duneParsed)"
    by (simp add: twoBooks_def tP l2)
  have h4: "toLowerCase (i_title duneOther) = toLowerCase (i_title duneParsed)"
    by (simp add: tP tQ l3)
  have "list_all (\<lambda>b. toLowerCase (b_title b) \<noteq> toLowerCase ''Dune'')
      (take (length (currentBooks (foldl (importBook ?ev) (importBook ?ev twoBooks duneParsed)
                [duneMessiah])) - length (currentBooks twoBooks))
         (currentBooks (foldl (importBook ?ev) (importBook ?ev twoBooks duneParsed)
            [duneMessiah])))"
    by code_simp
  then have h5: "\<forall>b \<in> set (take
      (length (currentBooks (foldl (importBook ?ev) (importBook ?ev twoBooks duneParsed)
         [duneMessiah])) - length (currentBooks twoBooks))
      (currentBooks (foldl (importBook ?ev) (importBook ?ev twoBooks duneParsed) [duneMessiah]))).
        toLowerCase (b_title b) \<noteq> toLowerCase (i_title duneParsed)"
    by (simp add: list_all_iff tP)
  note inst = merge_target_by_title [OF h1 h2 h3 h4 h5, of "''Anyone''"]
  from inst have a: "importBook ?ev twoBooks (duneParsed\<lparr>i_author := ''Anyone''\<rparr>)
       = importBook ?ev twoBooks duneParsed" by blast
  from inst have "\<forall>h \<in> set (i_highlights duneParsed) \<union> set (i_highlights duneOther).
      \<exists>eh \<in> set (allHighlights (importBook ?ev
                  (foldl (importBook ?ev) (importBook ?ev twoBooks duneParsed) [duneMessiah])
                  duneOther)).
        bookId eh = b_id (currentBooks twoBooks ! 1) \<and> h_text eh = p_text h"
    by blast
  then have b: "\<exists>eh. eh \<in> set (allHighlights (foldl (importBook ?ev) twoBooks
                 [duneParsed, duneMessiah, duneOther]))
          \<and> bookId eh = ''d1'' \<and> h_text eh = ''The spice must flow.''"
    unfolding d1 by (auto simp: hQ)
  have c: "map (\<lambda>h. (h_text h, bookId h))
        (allHighlights (foldl (importBook ?ev) twoBooks [duneParsed, duneMessiah, duneOther]))
       = [(''Fear is the mind-killer.'', ''d1''), (''Here lies a toppled god.'', ''px''),
          (''The spice must flow.'', ''d1'')]"
    by code_simp
  from l1 l2 l3 l4 l5 a b c show ?thesis by blast
qed

text \<open>
  Claim C8 as stated fails. Between the parsed books \<open>Dune\<close> and \<open>dune\<close> comes
  \<open>Dune Messiah\<close>, which matches no stored book; the book search answers its query with
  the title \<open>Dune\<close>, and the book created for it is put in front of the list. It is then
  the first book whose title matches \<open>dune\<close>: the highlight of \<open>Dune\<close> is stored under
  the stored book \<open>d1\<close>, that of \<open>dune\<close> under the new book \<open>px\<close>.
\<close>

theorem merge_target_counterexample:
  "map (\<lambda>h. (h_text h, bookId h))
     (allHighlights (foldl (importBook (sampleEnv ''Dune'' ''Frank Herbert'' CHR ''p'')) twoBooks
        [duneParsed, duneMessiah, duneOther]))
    = [(''Fear is the mind-killer.'', ''d1''), (''Here lies a toppled god.'', ''px''),
       (''The spice must flow.'', ''px'')]
   \<and> map (\<lambda>b. (b_id b, b_title b))
     (currentBooks (foldl (importBook (sampleEnv ''Dune'' ''Frank Herbert'' CHR ''p'')) twoBooks
        [duneParsed, duneMessiah, duneOther]))
    = [(''px'', ''Dune''), (''o1'', ''Other''), (''d1'', ''DUNE'')]
   \<and> toLowerCase (i_title duneOther) = toLowerCase (i_title duneParsed)
   \<and> i_author duneOther \<noteq> i_author duneParsed"
  by code_simp

lemma filed_iff:
  "filed st R \<longleftrightarrow>
     (\<forall>h \<in> set (i_highlights R). \<exists>eh \<in> set (allHighlights st).
         h_text eh = p_text h \<and> bookId eh \<in> set (map b_id (currentBooks st)))"
  by (simp add: filed_def list_all_iff list_ex_iff)

lemma ids_importBook:
  "set (map b_id (currentBooks st)) \<subseteq> set (map b_id (currentBooks (importBook ev st Q)))
   \<and> targetId ev st Q \<in> set (map b_id (currentBooks (importBook ev st Q)))"
proof -
  from importBook_shape [of ev st Q] obtain new :: "highlight list" where sh:
    "currentBooks (importBook ev st Q)
       = addTotal (length new) (targetIndex st Q) (booksWithTarget ev st Q)"
    by blast
  have ids: "map b_id (currentBooks (importBook ev st Q)) = map b_id (booksWithTarget ev st Q)"
    by (simp add: sh)
  have "targetIndex st Q < length (booksWithTarget ev st Q)"
  proof (cases "findIndex (titleMatches Q) (currentBooks st)")
    case None
    then show ?thesis by (simp add: targetIndex_def booksWithTarget_def)
  next
    case (Some i)
    with findIndex_Some [OF Some] show ?thesis by (simp add: targetIndex_def booksWithTarget_def)
  qed
  then have "targetId ev st Q \<in> set (map b_id (booksWithTarget ev st Q))"
    unfolding targetId_def by (metis length_map nth_map nth_mem)
  moreover have "set (map b_id (currentBooks st)) \<subseteq> set (map b_id (booksWithTarget ev st Q))"
    by (auto simp: booksWithTarget_def split: option.splits)
  ultimately show ?thesis by (simp add: ids)
qed

lemma filed_after_import: "filed (importBook ev st R) R"
proof -
  from importBook_shape [of ev st R] have
    "\<forall>h \<in> set (i_highlights R). \<exists>eh \<in> set (allHighlights (importBook ev st R)).
        bookId eh = targetId ev st R \<and> h_text eh = p_text h"
    by blast
  then show ?thesis using ids_importBook [of st ev R] unfolding filed_iff by metis
qed

lemma filed_preserved:
  assumes "filed st R"
  shows "filed (importBook ev st Q) R"
proof -
  from importBook_shape [of ev st Q] obtain new where
    "allHighlights (importBook ev st Q) = allHighlights st @ new" by blast
  then have "set (allHighlights st) \<subseteq> set (allHighlights (importBook ev st Q))" by simp
  with assms ids_importBook [of st ev Q] show ?thesis unfolding filed_iff by blast
qed

lemma foldl_importBook_filed:
  assumes "\<forall>R \<in> S. filed st R"
  shows "\<forall>R \<in> S \<union> set Ps. filed (foldl (importBook ev) st Ps) R"
  using assms
proof (induction Ps arbitrary: st S)
  case Nil
  then show ?case by simp
next
  case (Cons Q Qs)
  have "\<forall>R \<in> insert Q S. filed (importBook ev st Q) R"
    using Cons.prems filed_after_import filed_preserved by auto
  from Cons.IH [OF this] show ?case by auto
qed

text \<open>
  Claim C9. When the turn of a parsed book comes, no book of the list matches its title
  and the book search fails, the round of the loop puts a placeholder book in front of
  the list: a generated identifier, the parsed title and author, the placeholder cover,
  and as many highlights as the round added. The import does not stop there and returns
  no error: it returns a library and a summary that counts every parsed book; in the
  library the placeholder stands in front of the books that were in the list at its turn,
  which keep their order, identifiers and titles, and every highlight text of the parsed
  book and of all the parsed books after it is stored under a book of the library.
\<close>

theorem placeholder_on_lookup_failure:
  assumes parsed: "parseImportText ph clock importText = pre @ P # rest"
    and st: "st = reconcile ev lib pre"
    and nomatch: "\<forall>b \<in> set (currentBooks st). toLowerCase (b_title b) \<noteq> toLowerCase (i_title P)"
    and fails: "lookup ev (i_title P @ '' '' @ i_author P) = None"
  shows "\<exists>lib' s added b' kept.
      handleBulkImport ev ph clock lib importText = Inr (lib', s)
      \<and> currentBooks (importBook ev st P) =
           \<lparr>b_id = randomUUID ev (tick st), b_title = i_title P, b_author = i_author P,
            coverUrl = ''https://placehold.co/400x600?text='' @ encodeURIComponent (i_title P),
            totalHighlights = addedCount (importBook ev st P) - addedCount st,
            lastRead = None\<rparr> # currentBooks st
      \<and> l_books lib' = added @ b' # kept
      \<and> b_id b' = randomUUID ev (tick st) \<and> b_title b' = i_title P \<and> b_author b' = i_author P
      \<and> coverUrl b' = ''https://placehold.co/400x600?text='' @ encodeURIComponent (i_title P)
      \<and> list_all2 (\<lambda>b k. b_id k = b_id b \<and> b_title k = b_title b) (currentBooks st) kept
      \<and> totalBooksProcessed s = length pre + 1 + length rest
      \<and> (\<forall>R \<in> set (P # rest). \<forall>h \<in> set (i_highlights R).
            \<exists>eh \<in> set (l_highlights lib'). h_text eh = p_text h
               \<and> bookId eh \<in> set (map b_id (l_books lib')))"
proof -
  let ?pb = "\<lparr>b_id = randomUUID ev (tick st), b_title = i_title P, b_author = i_author P,
            coverUrl = ''https://placehold.co/400x600?text='' @ encodeURIComponent (i_title P),
            totalHighlights = addedCount (importBook ev st P) - addedCount st,
            lastRead = None\<rparr>"
  let ?st1 = "importBook ev st P"
  let ?fin = "reconcile ev lib (pre @ P # rest)"
  have fin: "?fin = foldl (importBook ev) ?st1 rest"
    by (simp add: reconcile_def st)
  have fN: "findIndex (titleMatches P) (currentBooks st) = None"
    using nomatch by (simp add: findIndex_None titleMatches_def)
  have nb: "newBookFor ev (tick st) P = placeholderBook ev (tick st) P"
    using fails by (simp add: newBookFor_def searchForBook_def)
  from importBook_shape [of ev st P] obtain new :: "highlight list" where sh:
    "addedCount ?st1 = addedCount st + length new"
    "currentBooks ?st1 = addTotal (length new) (targetIndex st P) (booksWithTarget ev st P)"
    by blast
  have first: "currentBooks ?st1 = ?pb # currentBooks st"
    using sh fN nb
    by (simp add: targetIndex_def booksWithTarget_def addTotal_def placeholderBook_def)
  from foldl_importBook_frame [of ev ?st1 rest] obtain added kept0 where fr:
    "currentBooks ?fin = added @ kept0"
    "list_all2 (keptAs rest) (?pb # currentBooks st) kept0"
    unfolding first fin by blast
  from fr(2) obtain b' kept where k: "kept0 = b' # kept" "keptAs rest ?pb b'"
    "list_all2 (keptAs rest) (currentBooks st) kept"
    by (auto simp: list_all2_Cons1)
  from k(2) have e: "b' = ?pb\<lparr>totalHighlights := totalHighlights b'\<rparr>"
    by (simp add: keptAs_def)
  have fields: "b_id b' = randomUUID ev (tick st) \<and> b_title b' = i_title P
      \<and> b_author b' = i_author P
      \<and> coverUrl b' = ''https://placehold.co/400x600?text='' @ encodeURIComponent (i_title P)"
    by (subst e, simp)+
  have behind: "list_all2 (\<lambda>b k. b_id k = b_id b \<and> b_title k = b_title b) (currentBooks st) kept"
  proof (rule list_all2_mono [OF k(3)])
    fix b k assume "keptAs rest b k"
    then have ek: "k = b\<lparr>totalHighlights := totalHighlights k\<rparr>" by (simp add: keptAs_def)
    show "b_id k = b_id b \<and> b_title k = b_title b" by (subst ek, simp)+
  qed
  have "\<forall>R \<in> {} \<union> set (P # rest). filed (foldl (importBook ev) st (P # rest)) R"
    by (rule foldl_importBook_filed) simp
  then have all_filed: "\<forall>R \<in> set (P # rest). \<forall>h \<in> set (i_highlights R).
      \<exists>eh \<in> set (allHighlights ?fin). h_text eh = p_text h
         \<and> bookId eh \<in> set (map b_id (currentBooks ?fin))"
    unfolding filed_iff fin by simp
  let ?lib' = "\<lparr>l_books = currentBooks ?fin, l_highlights = allHighlights ?fin\<rparr>"
  let ?s = "\<lparr>totalBooksProcessed = length (pre @ P # rest),
             totalHighlightsAdded = addedCount ?fin, s_updates = updates ?fin\<rparr>"
  have run: "handleBulkImport ev ph clock lib importText = Inr (?lib', ?s)"
    by (simp add: handleBulkImport_def parsed Let_def)
  have "l_books ?lib' = added @ b' # kept" using fr(1) k(1) by simp
  moreover have "totalBooksProcessed ?s = length pre + 1 + length rest" by simp
  moreover have "\<forall>R \<in> set (P # rest). \<forall>h \<in> set (i_highlights R).
      \<exists>eh \<in> set (l_highlights ?lib'). h_text eh = p_text h
         \<and> bookId eh \<in> set (map b_id (l_books ?lib'))"
    using all_filed by simp
  ultimately show ?thesis using run first fields behind by blast
qed

theorem placeholder_on_lookup_failure_witness:
  "parseImportText (\<lambda>_. []) (\<lambda>_. ''t'') emmaDuneText =
     [] @ \<lparr>i_title = ''Emma'', i_author = ''Jane Austen'',
            i_highlights = [\<lparr>p_text = ''Seldom, very seldom.'', page = Some ''3'',
                              location = None, p_createdAt = Some ''t''\<rparr>]\<rparr>
        # [\<lparr>i_title = ''Dune'', i_author = ''Frank Herbert'',
            i_highlights = [\<lparr>p_text = ''Fear is the mind-killer.'', page = Some ''5'',
                              location = None, p_createdAt = Some ''t''\<rparr>]\<rparr>]
   \<and> map b_title (currentBooks (reconcile (offlineEnv CHR ''p'') sampleLibrary []))
       = [''Other'', ''DUNE'']
   \<and> toLowerCase ''Other'' \<noteq> toLowerCase ''Emma'' \<and> toLowerCase ''DUNE'' \<noteq> toLowerCase ''Emma''
   \<and> lookup (offlineEnv CHR ''p'') ''Emma Jane Austen'' = None
   \<and> handleBulkImport (offlineEnv CHR ''p'') (\<lambda>_. []) (\<lambda>_. ''t'') sampleLibrary emmaDuneText =
       Inr (\<lparr>l_books =
               [\<lparr>b_id = ''p'', b_title = ''Emma'', b_author = ''Jane Austen'',
                 coverUrl = ''https://placehold.co/400x600?text=Emma'', totalHighlights = 1,
                 lastRead = None\<rparr>,
                \<lparr>b_id = ''o1'', b_title = ''Other'', b_author = ''A. Nother'', coverUrl = ''c1'',
                 totalHighlights = 1, lastRead = None\<rparr>,
                \<lparr>b_id = ''d1'', b_title = ''DUNE'', b_author = ''F. Herbert'', coverUrl = ''c2'',
                 totalHighlights = 1, lastRead = Some ''yesterday''\<rparr>],
             l_highlights =
               [\<lparr>h_id = ''h0'', bookId = ''o1'', h_text = ''An old note.'', pageNumber = None,
                 thoughts = [], h_createdAt = ''then'', imageUrl = None, source = Scanned\<rparr>,
                \<lparr>h_id = ''px'', bookId = ''p'', h_text = ''Seldom, very seldom.'',
                 pageNumber = Some 3, thoughts = [], h_createdAt = ''now'', imageUrl = None,
                 source = Digital\<rparr>,
                \<lparr>h_id = ''pxx'', bookId = ''d1'', h_text = ''Fear is the mind-killer.'',
                 pageNumber = Some 5, thoughts = [], h_createdAt = ''now'', imageUrl = None,
                 source = Digital\<rparr>]\<rparr>,
            \<lparr>totalBooksProcessed = 2, totalHighlightsAdded = 2,
             s_updates = [(''Emma'', 1), (''Dune'', 1)]\<rparr>)
   \<and> (\<exists>lib' s added b' kept.
         handleBulkImport (offlineEnv CHR ''p'') (\<lambda>_. []) (\<lambda>_. ''t'') sampleLibrary emmaDuneText
           = Inr (lib', s)
         \<and> l_books lib' = added @ b' # kept \<and> b_id b' = ''p'' \<and> b_title b' = ''Emma''
         \<and> length kept = 2 \<and> totalBooksProcessed s = 2
         \<and> list_ex (\<lambda>eh. h_text eh = ''Fear is the mind-killer.''
                          \<and> bookId eh \<in> set (map b_id (l_books lib'))) (l_highlights lib'))"
proof -
  let ?ev = "offlineEnv CHR ''p''"
  let ?emma = "\<lparr>i_title = ''Emma'', i_author = ''Jane Austen'',
            i_highlights = [\<lparr>p_text = ''Seldom, very seldom.'', page = Some ''3'',
                              location = None, p_createdAt = Some ''t''\<rparr>]\<rparr>"
  let ?dune = "\<lparr>i_title = ''Dune'', i_author = ''Frank Herbert'',
            i_highlights = [\<lparr>p_text = ''Fear is the mind-killer.'', page = Some ''5'',
                              location = None, p_createdAt = Some ''t''\<rparr>]\<rparr>"
  let ?st = "reconcile ?ev sampleLibrary []"
  have parsed: "parseImportText (\<lambda>_. []) (\<lambda>_. ''t'') emmaDuneText = [] @ ?emma # [?dune]"
    by code_simp
  have titles: "map b_title (currentBooks ?st) = [''Other'', ''DUNE'']"
    by (simp add: reconcile_def sampleLibrary_def)
  have l1: "toLowerCase ''Other'' \<noteq> toLowerCase ''Emma''" by code_simp
  have l2: "toLowerCase ''DUNE'' \<noteq> toLowerCase ''Emma''" by code_simp
  have nomatch: "\<forall>b \<in> set (currentBooks ?st). toLowerCase (b_title b) \<noteq> toLowerCase (i_title ?emma)"
    using l1 l2 by (simp add: reconcile_def sampleLibrary_def)
  have fails: "lookup ?ev (i_title ?emma @ '' '' @ i_author ?emma) = None"
    by (simp add: offlineEnv_def)
  have f2: "lookup ?ev ''Emma Jane Austen'' = None" by (simp add: offlineEnv_def)
  have run: "handleBulkImport ?ev (\<lambda>_. []) (\<lambda>_. ''t'') sampleLibrary emmaDuneText =
       Inr (\<lparr>l_books =
               [\<lparr>b_id = ''p'', b_title = ''Emma'', b_author = ''Jane Austen'',
                 coverUrl = ''https://placehold.co/400x600?text=Emma'', totalHighlights = 1,
                 lastRead = None\<rparr>,
                \<lparr>b_id = ''o1'', b_title = ''Other'', b_author = ''A. Nother'', coverUrl = ''c1'',
                 totalHighlights = 1, lastRead = None\<rparr>,
                \<lparr>b_id = ''d1'', b_title = ''DUNE'', b_author = ''F. Herbert'', coverUrl = ''c2'',
                 totalHighlights = 1, lastRead = Some ''yesterday''\<rparr>],
             l_highlights =
               [\<lparr>h_id = ''h0'', bookId = ''o1'', h_text = ''An old note.'', pageNumber = None,
                 thoughts = [], h_createdAt = ''then'', imageUrl = None, source = Scanned\<rparr>,
                \<lparr>h_id = ''px'', bookId = ''p'', h_text = ''Seldom, very seldom.'',
                 pageNumber = Some 3, thoughts = [], h_createdAt = ''now'', imageUrl = None,
                 source = Digital\<rparr>,
                \<lparr>h_id = ''pxx'', bookId = ''d1'', h_text = ''Fear is the mind-killer.'',
                 pageNumber = Some 5, thoughts = [], h_createdAt = ''now'', imageUrl = None,
                 source = Digital\<rparr>]\<rparr>,
            \<lparr>totalBooksProcessed = 2, totalHighlightsAdded = 2,
             s_updates = [(''Emma'', 1), (''Dune'', 1)]\<rparr>)"
    by code_simp
  have id0: "randomUUID ?ev (tick ?st) = ''p''" by (simp add: offlineEnv_def reconcile_def)
  have len: "length (currentBooks ?st) = 2" by (simp add: reconcile_def sampleLibrary_def)
  from placeholder_on_lookup_failure [OF parsed refl nomatch fails]
  obtain lib' s added b' kept where c:
    "handleBulkImport ?ev (\<lambda>_. []) (\<lambda>_. ''t'') sampleLibrary emmaDuneText = Inr (lib', s)"
    "l_books lib' = added @ b' # kept" "b_id b' = randomUUID ?ev (tick ?st)"
    "b_title b' = i_title ?emma"
    "list_all2 (\<lambda>b k. b_id k = b_id b \<and> b_title k = b_title b) (currentBooks ?st) kept"
    "totalBooksProcessed s = length ([] :: importedBookData list) + 1 + length [?dune]"
    "\<forall>R \<in> set (?emma # [?dune]). \<forall>h \<in> set (i_highlights R).
            \<exists>eh \<in> set (l_highlights lib'). h_text eh = p_text h
               \<and> bookId eh \<in> set (map b_id (l_books lib'))"
    by blast
  from c(3) have idp: "b_id b' = ''p''" by (simp only: id0)
  from c(4) have tp: "b_title b' = ''Emma''" by simp
  from c(6) have n2: "totalBooksProcessed s = 2" by simp
  from c(5) len have "length kept = 2" by (simp add: list_all2_lengthD)
  moreover from c(7) have "list_ex (\<lambda>eh. h_text eh = ''Fear is the mind-killer.''
                          \<and> bookId eh \<in> set (map b_id (l_books lib'))) (l_highlights lib')"
    by (simp add: list_ex_iff)
  ultimately have "\<exists>lib' s added b' kept.
         handleBulkImport ?ev (\<lambda>_. []) (\<lambda>_. ''t'') sampleLibrary emmaDuneText = Inr (lib', s)
         \<and> l_books lib' = added @ b' # kept \<and> b_id b' = ''p'' \<and> b_title b' = ''Emma''
         \<and> length kept = 2 \<and> totalBooksProcessed s = 2
         \<and> list_ex (\<lambda>eh. h_text eh = ''Fear is the mind-killer.''
                          \<and> bookId eh \<in> set (map b_id (l_books lib'))) (l_highlights lib')"
    using c(1,2) idp tp n2 by blast
  with parsed titles l1 l2 f2 run show ?thesis by blast
qed

section \<open>The counters of the books\<close>

text \<open>
  The equality of each book's counter with the number of its stored highlights is kept by
  the deletion of a book and, when the identifiers of the books are distinct, by the
  manual saving of a highlight.
\<close>

lemma deleteBook_totalsAgree:
  assumes "totalsAgree lib"
  shows "totalsAgree (deleteBook lib bk)"
proof -
  have keep: "countFor (deleteBook lib bk) (b_id b) = countFor lib (b_id b)"
    if "b_id b \<noteq> b_id bk" for b
  proof -
    have "filter (\<lambda>h. bookId h = b_id b) (filter (\<lambda>h. bookId h \<noteq> b_id bk) (l_highlights lib))
        = filter (\<lambda>h. bookId h = b_id b) (l_highlights lib)"
      unfolding filter_filter using that by (intro filter_cong) auto
    then show ?thesis by (simp only: countFor_def deleteBook_def library.simps)
  qed
  have "\<forall>b \<in> set (l_books (deleteBook lib bk)).
      totalHighlights b = countFor (deleteBook lib bk) (b_id b)"
  proof
    fix b assume "b \<in> set (l_books (deleteBook lib bk))"
    then have b: "b \<in> set (l_books lib)" "b_id b \<noteq> b_id bk" by (simp_all add: deleteBook_def)
    from assms b(1) have "totalHighlights b = countFor lib (b_id b)"
      by (simp add: totalsAgree_def list_all_iff)
    with keep [OF b(2)] show "totalHighlights b = countFor (deleteBook lib bk) (b_id b)" by simp
  qed
  then show ?thesis by (simp add: totalsAgree_def list_all_iff)
qed

lemma countFor_append:
  "countFor \<lparr>l_books = bs, l_highlights = hs @ [x]\<rparr> bid
     = countFor \<lparr>l_books = bs', l_highlights = hs\<rparr> bid + (if bookId x = bid then 1 else 0)"
  by (simp add: countFor_def)

lemma saveNewHighlight_totalsAgree:
  assumes agree: "totalsAgree lib" and dist: "distinct (map b_id (l_books lib))"
  shows "totalsAgree (saveNewHighlight ev t lib bookOpt draftText draftPage draftNote)"
proof (cases "bookOpt = None \<or> trim draftText = []")
  case True
  then show ?thesis using agree by (auto simp: saveNewHighlight_def split: option.splits)
next
  case False
  then obtain bk where bk: "bookOpt = Some bk" "trim draftText \<noteq> []" by auto
  let ?bs = "l_books lib"
  have cnt: "\<And>b. b \<in> set ?bs \<Longrightarrow>
      totalHighlights b = length (filter (\<lambda>h. bookId h = b_id b) (l_highlights lib))"
    using agree by (simp add: totalsAgree_def list_all_iff countFor_def)
  show ?thesis
  proof (cases "findIndex (\<lambda>b. b_id b = b_id bk) ?bs")
    case None
    then have "\<forall>b \<in> set ?bs. b_id b \<noteq> b_id bk" by (simp add: findIndex_None)
    then show ?thesis using bk None cnt
      by (auto simp: saveNewHighlight_def Let_def totalsAgree_def list_all_iff countFor_def)
  next
    case (Some i)
    from findIndex_Some [OF Some] have i: "i < length ?bs" "b_id (?bs ! i) = b_id bk" by simp_all
    have other: "\<And>j. j < length ?bs \<Longrightarrow> j \<noteq> i \<Longrightarrow> b_id (?bs ! j) \<noteq> b_id bk"
    proof -
      fix j assume j: "j < length ?bs" "j \<noteq> i"
      from dist i(1) j have "b_id (?bs ! j) \<noteq> b_id (?bs ! i)"
        by (auto simp: distinct_conv_nth)
      with i show "b_id (?bs ! j) \<noteq> b_id bk" by simp
    qed
    have "\<forall>j < length ?bs.
        totalHighlights (bumpTotal i ?bs ! j)
          = length (filter (\<lambda>h. bookId h = b_id (bumpTotal i ?bs ! j)) (l_highlights lib))
            + (if b_id bk = b_id (bumpTotal i ?bs ! j) then 1 else 0)"
    proof (intro allI impI)
      fix j assume j: "j < length ?bs"
      show "totalHighlights (bumpTotal i ?bs ! j)
          = length (filter (\<lambda>h. bookId h = b_id (bumpTotal i ?bs ! j)) (l_highlights lib))
            + (if b_id bk = b_id (bumpTotal i ?bs ! j) then 1 else 0)"
      proof (cases "j = i")
        case True
        then show ?thesis using i cnt [of "?bs ! i"] by (simp add: bumpTotal_def)
      next
        case False
        then show ?thesis using i(1) j other [OF j False] cnt [of "?bs ! j"]
          by (auto simp: bumpTotal_def)
      qed
    qed
    moreover have "length (bumpTotal i ?bs) = length ?bs" by (simp add: bumpTotal_def)
    ultimately have "\<forall>b \<in> set (bumpTotal i ?bs).
        totalHighlights b = length (filter (\<lambda>h. bookId h = b_id b) (l_highlights lib))
            + (if b_id bk = b_id b then 1 else 0)"
      by (metis in_set_conv_nth)
    then show ?thesis using bk Some
      by (simp add: saveNewHighlight_def Let_def totalsAgree_def list_all_iff countFor_def)
  qed
qed

text \<open>
  The bulk import keeps the equality too, when the identifiers of the books are distinct
  and the identifiers it draws are new and pairwise different.
\<close>

lemma totalHighlights_newBookFor: "totalHighlights (newBookFor ev t P) = 0"
  by (simp add: newBookFor_def searchForBook_def placeholderBook_def split: option.splits)

lemma b_id_newBookFor: "b_id (newBookFor ev t P) = randomUUID ev t"
  by (simp add: newBookFor_def searchForBook_def placeholderBook_def split: option.splits)

lemma count_append_same:
  assumes "\<forall>x \<in> set new. bookId x = bid"
  shows "length (filter (\<lambda>h. bookId h = c) (hs @ new))
          = length (filter (\<lambda>h. bookId h = c) hs) + (if c = bid then length new else 0)"
proof -
  have "filter (\<lambda>h. bookId h = c) new = (if c = bid then new else [])"
    using assms by (auto simp: filter_empty_conv intro: filter_True)
  then show ?thesis by simp
qed

lemma importBook_wellCounted:
  assumes inj: "inj (randomUUID ev)" and wc: "wellCounted ev st"
  shows "wellCounted ev (importBook ev st P)"
proof -
  let ?bs = "currentBooks st" and ?hs = "allHighlights st"
  let ?st' = "importBook ev st P"
  from wc have dist: "distinct (map b_id ?bs)"
    and cnt: "\<And>b. b \<in> set ?bs \<Longrightarrow>
        totalHighlights b = length (filter (\<lambda>h. bookId h = b_id b) ?hs)"
    and fresh: "\<And>n. n \<ge> tick st \<Longrightarrow> randomUUID ev n \<notin> set (map b_id ?bs)
        \<and> randomUUID ev n \<notin> set (map bookId ?hs)"
    by (simp_all add: wellCounted_def list_all_iff)
  from importBook_shape [of ev st P] obtain new where sh:
    "allHighlights ?st' = ?hs @ new"
    "currentBooks ?st' = addTotal (length new) (targetIndex st P) (booksWithTarget ev st P)"
    "tick ?st' = tick st + length new
        + (if findIndex (titleMatches P) ?bs = None then 1 else 0)"
    "\<forall>x \<in> set new. bookId x = targetId ev st P"
    by blast
  note cnt' = count_append_same [OF sh(4), of _ ?hs]
  show ?thesis
  proof (cases "findIndex (titleMatches P) ?bs")
    case (Some i)
    from findIndex_Some [OF Some] have i: "i < length ?bs" by simp
    have bs': "currentBooks ?st' = addTotal (length new) i ?bs"
      and tid: "targetId ev st P = b_id (?bs ! i)"
      using sh(2) Some by (simp_all add: targetIndex_def booksWithTarget_def targetId_def)
    have d: "distinct (map b_id (currentBooks ?st'))" using dist by (simp add: bs')
    have c: "\<forall>j < length ?bs. totalHighlights (addTotal (length new) i ?bs ! j)
        = length (filter (\<lambda>h. bookId h = b_id (addTotal (length new) i ?bs ! j)) (?hs @ new))"
    proof (intro allI impI)
      fix j assume j: "j < length ?bs"
      have idj: "j \<noteq> i \<Longrightarrow> b_id (?bs ! j) \<noteq> b_id (?bs ! i)"
        using dist i j by (auto simp: distinct_conv_nth)
      show "totalHighlights (addTotal (length new) i ?bs ! j)
        = length (filter (\<lambda>h. bookId h = b_id (addTotal (length new) i ?bs ! j)) (?hs @ new))"
        using j idj cnt [of "?bs ! j"] by (auto simp: cnt' tid addTotal_nth simp del: filter_append)
    qed
    have c': "\<forall>b \<in> set (currentBooks ?st'). totalHighlights b
        = length (filter (\<lambda>h. bookId h = b_id b) (allHighlights ?st'))"
      unfolding bs' sh(1) using c by (auto simp: in_set_conv_nth)
    have f: "\<forall>n \<ge> tick ?st'. randomUUID ev n \<notin> set (map b_id (currentBooks ?st'))
        \<and> randomUUID ev n \<notin> set (map bookId (allHighlights ?st'))"
    proof (intro allI impI)
      fix n assume "n \<ge> tick ?st'"
      then have n: "n \<ge> tick st" using sh(3) by simp
      have "b_id (?bs ! i) \<in> set (map b_id ?bs)" using i by simp
      with fresh [OF n] have "randomUUID ev n \<noteq> b_id (?bs ! i)" by metis
      with fresh [OF n] sh(4) show "randomUUID ev n \<notin> set (map b_id (currentBooks ?st'))
        \<and> randomUUID ev n \<notin> set (map bookId (allHighlights ?st'))"
        by (auto simp: bs' sh(1) tid)
    qed
    from d c' f show ?thesis by (simp add: wellCounted_def list_all_iff)
  next
    case None
    let ?nb = "newBookFor ev (tick st) P"
    let ?u = "randomUUID ev (tick st)"
    have bs': "currentBooks ?st' = ?nb\<lparr>totalHighlights := length new\<rparr> # ?bs"
      and tid: "targetId ev st P = ?u"
      using sh(2) None
      by (simp_all add: targetIndex_def booksWithTarget_def targetId_def addTotal_def
          totalHighlights_newBookFor b_id_newBookFor)
    from fresh [of "tick st"] have u: "?u \<notin> set (map b_id ?bs)" "?u \<notin> set (map bookId ?hs)"
      by simp_all
    have d: "distinct (map b_id (currentBooks ?st'))"
      using dist u(1) by (simp add: bs' b_id_newBookFor)
    have c0: "length (filter (\<lambda>h. bookId h = ?u) ?hs) = 0"
      using u(2) by (force simp: filter_empty_conv)
    have c': "\<forall>b \<in> set (currentBooks ?st'). totalHighlights b
        = length (filter (\<lambda>h. bookId h = b_id b) (allHighlights ?st'))"
    proof
      fix b assume "b \<in> set (currentBooks ?st')"
      then consider "b = ?nb\<lparr>totalHighlights := length new\<rparr>" | "b \<in> set ?bs"
        by (auto simp: bs')
      then show "totalHighlights b
          = length (filter (\<lambda>h. bookId h = b_id b) (allHighlights ?st'))"
      proof cases
        case 1
        then show ?thesis using c0 by (simp add: sh(1) cnt' tid b_id_newBookFor del: filter_append)
      next
        case 2
        then have "b_id b \<noteq> ?u" using u(1) by force
        then show ?thesis using cnt [OF 2] by (simp add: sh(1) cnt' tid del: filter_append)
      qed
    qed
    have f: "\<forall>n \<ge> tick ?st'. randomUUID ev n \<notin> set (map b_id (currentBooks ?st'))
        \<and> randomUUID ev n \<notin> set (map bookId (allHighlights ?st'))"
    proof (intro allI impI)
      fix n assume "n \<ge> tick ?st'"
      then have n: "n \<ge> tick st" "n \<noteq> tick st" using sh(3) None by simp_all
      from n(2) inj have "randomUUID ev n \<noteq> ?u" by (auto dest: injD)
      with fresh [OF n(1)] sh(4) show "randomUUID ev n \<notin> set (map b_id (currentBooks ?st'))
        \<and> randomUUID ev n \<notin> set (map bookId (allHighlights ?st'))"
        by (auto simp: bs' sh(1) tid b_id_newBookFor)
    qed
    from d c' f show ?thesis by (simp add: wellCounted_def list_all_iff)
  qed
qed

lemma foldl_importBook_wellCounted:
  "inj (randomUUID ev) \<Longrightarrow> wellCounted ev st \<Longrightarrow> wellCounted ev (foldl (importBook ev) st Ps)"
  by (induction Ps arbitrary: st) (simp_all add: importBook_wellCounted)

lemma handleBulkImport_totalsAgree:
  assumes agree: "totalsAgree lib" and dist: "distinct (map b_id (l_books lib))"
    and inj: "inj (randomUUID ev)"
    and fresh: "\<forall>n. randomUUID ev n \<notin> set (map b_id (l_books lib))
                  \<and> randomUUID ev n \<notin> set (map bookId (l_highlights lib))"
    and run: "handleBulkImport ev ph clock lib importText = Inr (lib', s)"
  shows "totalsAgree lib' \<and> distinct (map b_id (l_books lib'))"
proof -
  let ?init = "\<lparr>currentBooks = l_books lib, allHighlights = l_highlights lib, tick = 0,
                addedCount = 0, updates = []\<rparr>"
  let ?Ps = "parseImportText ph clock importText"
  have "wellCounted ev ?init"
    using agree dist fresh by (simp add: wellCounted_def totalsAgree_def countFor_def)
  then have "wellCounted ev (reconcile ev lib ?Ps)"
    unfolding reconcile_def by (rule foldl_importBook_wellCounted [OF inj])
  moreover from run have "lib' = \<lparr>l_books = currentBooks (reconcile ev lib ?Ps),
      l_highlights = allHighlights (reconcile ev lib ?Ps)\<rparr>"
    by (auto simp: handleBulkImport_def Let_def split: if_splits)
  ultimately show ?thesis by (simp add: wellCounted_def totalsAgree_def countFor_def)
qed

text \<open>
  Claim C2 fails for the deletion of a highlight: \<open>deleteStoredHighlight\<close> rewrites the
  highlights only. In the sample library the counters are right; after the deletion of
  its one highlight the first book still counts one highlight and has none.
\<close>

theorem deleteStoredHighlight_breaks_totals:
  "totalsAgree sampleLibrary
   \<and> deleteStoredHighlight sampleLibrary ''h0'' =
       \<lparr>l_books =
          [\<lparr>b_id = ''o1'', b_title = ''Other'', b_author = ''A. Nother'', coverUrl = ''c1'',
            totalHighlights = 1, lastRead = None\<rparr>,
           \<lparr>b_id = ''d1'', b_title = ''DUNE'', b_author = ''F. Herbert'', coverUrl = ''c2'',
            totalHighlights = 0, lastRead = Some ''yesterday''\<rparr>],
        l_highlights = []\<rparr>
   \<and> countFor (deleteStoredHighlight sampleLibrary ''h0'') ''o1'' = 0
   \<and> \<not> totalsAgree (deleteStoredHighlight sampleLibrary ''h0'')"
  by (simp add: totalsAgree_def deleteStoredHighlight_def sampleLibrary_def countFor_def)

end
